theory Spec2Isabelle
  imports Complex_Main "HOL-Library.Word" "HOL-Library.Log_Nat" "HOL-Library.AList"
begin

unbundle bit_operations_syntax

section \<open>The world engine of the 2D sandbox\<close>

text \<open>
  The repository holds the game in several variants. The variant embedded here is the
  complete one (\<^verbatim>\<open>src/unnamed/part_001\<close>: \<^verbatim>\<open>LOAD_RADIUS = 4\<close>, the 32-bit hash, the clamped
  ground height, the \<^verbatim>\<open>|| 1\<close> fallback of the retreat step). Where \<^verbatim>\<open>src/script.js\<close> defines
  the same function differently and a property depends on the difference, its version is
  embedded too, under the same name with the suffix \<^verbatim>\<open>_script\<close>.

  JavaScript numbers are modelled as follows. Tile and chunk coordinates, which the
  code only ever produces with \<^verbatim>\<open>Math.floor\<close>, are \<open>int\<close>. Pixel positions, velocities,
  noise values and vitals are \<open>real\<close>: the model computes with exact reals where the
  program computes with doubles. The integer hash is the exception: there the rounding
  of a product to 53 significant bits changes the result, and it is written out.
\<close>

subsection \<open>Constants\<close>

definition TILE :: int where "TILE = 32"
definition CHUNK_W :: int where "CHUNK_W = 32"
definition WORLD_H :: int where "WORLD_H = 80"
definition LOAD_RADIUS :: int where "LOAD_RADIUS = 4"
definition REACH :: real where "REACH = 5 * real_of_int TILE"
definition SEED :: int where "SEED = 1337"

subsection \<open>Blocks\<close>

datatype block = AIR | GRASS | DIRT | STONE | LOG | LEAVES | COAL | IRON

text \<open>\<^verbatim>\<open>BLOCK_INFO[id].solid\<close>: every block but Air is solid.\<close>

fun isSolid :: "block \<Rightarrow> bool" where
  "isSolid AIR = False"
| "isSolid GRASS = True"
| "isSolid DIRT = True"
| "isSolid STONE = True"
| "isSolid LOG = True"
| "isSolid LEAVES = True"
| "isSolid COAL = True"
| "isSolid IRON = True"

subsection \<open>Errors\<close>

text \<open>
  \<open>TypeError\<close> is what JavaScript throws when a property of \<^verbatim>\<open>undefined\<close> is read
  (\<^verbatim>\<open>chunk[ty][lx]\<close> with no row \<^verbatim>\<open>ty\<close>) or when a Number meets a BigInt in one arithmetic
  operation; \<open>RangeError\<close> is thrown by \<^verbatim>\<open>BigInt(n)\<close> for an \<^verbatim>\<open>n\<close> that is not finite.
  A column index outside a row would not throw in JavaScript (a read gives \<^verbatim>\<open>undefined\<close>, a
  write grows the row); the model stops there with \<open>OutOfGrid\<close> instead of inventing a
  block, so a result \<open>Inr\<close> of the model is always a run in which every access was inside
  the grid.
\<close>

datatype error = TypeError | RangeError | OutOfGrid

definition bindE :: "error + 'a \<Rightarrow> ('a \<Rightarrow> error + 'b) \<Rightarrow> error + 'b" where
  "bindE m f = (case m of Inl e \<Rightarrow> Inl e | Inr a \<Rightarrow> f a)"

text \<open>A \<^verbatim>\<open>for\<close> loop over the values \<open>is\<close>, threading the mutated state through the body.\<close>

fun forE :: "'i list \<Rightarrow> ('i \<Rightarrow> 's \<Rightarrow> error + 's) \<Rightarrow> 's \<Rightarrow> error + 's" where
  "forE [] body s = Inr s"
| "forE (i # is) body s = bindE (body i s) (forE is body)"

subsection \<open>Chunks: \<^verbatim>\<open>data[WORLD_H][CHUNK_W]\<close>\<close>

type_synonym chunk = "block list list"

definition cellGet :: "chunk \<Rightarrow> int \<Rightarrow> int \<Rightarrow> error + block" where
  "cellGet d y x =
     (if 0 \<le> y \<and> y < int (length d) then
        (if 0 \<le> x \<and> x < int (length (d ! nat y)) then Inr (d ! nat y ! nat x)
         else Inl OutOfGrid)
      else Inl TypeError)"

definition cellSet :: "chunk \<Rightarrow> int \<Rightarrow> int \<Rightarrow> block \<Rightarrow> error + chunk" where
  "cellSet d y x v =
     (if 0 \<le> y \<and> y < int (length d) then
        (if 0 \<le> x \<and> x < int (length (d ! nat y))
         then Inr (d[nat y := (d ! nat y)[nat x := v]])
         else Inl OutOfGrid)
      else Inl TypeError)"

text \<open>A chunk as \<^verbatim>\<open>generateChunk\<close> allocates it: \<open>WORLD_H\<close> rows of \<open>CHUNK_W\<close> cells.\<close>

definition wf_chunk :: "chunk \<Rightarrow> bool" where
  "wf_chunk d \<longleftrightarrow> map length d = replicate (nat WORLD_H) (nat CHUNK_W)"

subsection \<open>The seeded hash and the noise functions\<close>

text \<open>
  A product or sum of integer-valued doubles is the exact result rounded to 53
  significant bits (ties to even), or not finite. \<open>None\<close> stands for the values that are
  not finite (\<^verbatim>\<open>Infinity\<close>, \<^verbatim>\<open>NaN\<close>), which \<^verbatim>\<open>| 0\<close> maps to 0.
\<close>

definition round53 :: "int \<Rightarrow> int" where
  "round53 m =
     (let a = \<bar>m\<bar>; e = bitlen a - 53 in
      if e \<le> 0 then m
      else
        (let p = 2 ^ nat e; q = a div p; r = a mod p;
             q' = (if p < 2 * r \<or> (2 * r = p \<and> odd q) then q + 1 else q)
         in sgn m * (q' * p)))"

definition dbl :: "int \<Rightarrow> int option" where
  "dbl m = (let r = round53 m in if \<bar>r\<bar> < 2 ^ 1024 then Some r else None)"

definition jsMul :: "int option \<Rightarrow> int option \<Rightarrow> int option" where
  "jsMul a b = (case a of None \<Rightarrow> None | Some m \<Rightarrow>
                 (case b of None \<Rightarrow> None | Some n \<Rightarrow> dbl (m * n)))"

definition jsAdd :: "int option \<Rightarrow> int option \<Rightarrow> int option" where
  "jsAdd a b = (case a of None \<Rightarrow> None | Some m \<Rightarrow>
                 (case b of None \<Rightarrow> None | Some n \<Rightarrow> dbl (m + n)))"

definition toInt32 :: "int option \<Rightarrow> 32 word" where
  "toInt32 a = (case a of None \<Rightarrow> 0 | Some m \<Rightarrow> word_of_int m)"

text \<open>
  \<^verbatim>\<open>
  function hash2D(x, y) {
    let n = (x * 374761393 + y * 668265263 + SEED * 1442695041) | 0;
    n = (n ^ (n >>> 13)) | 0;
    n = (n * 1274126177) | 0;
    n = (n ^ (n >>> 16)) >>> 0;
    return n / 4294967296; // [0,1)
  }\<close>
\<close>

definition hash2D_bits :: "int \<Rightarrow> int \<Rightarrow> 32 word" where
  "hash2D_bits x y =
     (let n0 = toInt32 (jsAdd (jsAdd (jsMul (Some x) (Some 374761393))
                                     (jsMul (Some y) (Some 668265263)))
                              (jsMul (Some SEED) (Some 1442695041)));
          n1 = n0 XOR drop_bit 13 n0;
          n2 = toInt32 (jsMul (Some (sint n1)) (Some 1274126177))
      in n2 XOR drop_bit 16 n2)"

definition hash2D :: "int \<Rightarrow> int \<Rightarrow> real" where
  "hash2D x y = real_of_int (uint (hash2D_bits x y)) / 4294967296"

definition smoothstep :: "real \<Rightarrow> real" where
  "smoothstep t = t * t * (3 - 2 * t)"

definition lerp :: "real \<Rightarrow> real \<Rightarrow> real \<Rightarrow> real" where
  "lerp a b t = a + (b - a) * t"

definition noise1D :: "real \<Rightarrow> real" where
  "noise1D x =
     (let x0 = \<lfloor>x\<rfloor>; x1 = x0 + 1;
          t = smoothstep (x - real_of_int x0);
          v0 = hash2D x0 0;
          v1 = hash2D x1 0
      in lerp v0 v1 t)"

definition noise2D :: "real \<Rightarrow> real \<Rightarrow> real" where
  "noise2D x y =
     (let x0 = \<lfloor>x\<rfloor>; y0 = \<lfloor>y\<rfloor>; x1 = x0 + 1; y1 = y0 + 1;
          tx = smoothstep (x - real_of_int x0);
          ty = smoothstep (y - real_of_int y0);
          v00 = hash2D x0 y0; v10 = hash2D x1 y0;
          v01 = hash2D x0 y1; v11 = hash2D x1 y1
      in lerp (lerp v00 v10 tx) (lerp v01 v11 tx) ty)"

subsection \<open>Chunk generation\<close>

text \<open>
  Modelled from the spec: \<^verbatim>\<open>clampInt\<close> is called by \<^verbatim>\<open>generateChunk\<close> but its definition is
  not in the source files; the specification says the ground height is "clamped to a valid
  row range strictly inside [0, WORLD_H)".
\<close>

definition clampInt :: "int \<Rightarrow> int \<Rightarrow> int \<Rightarrow> int" where
  "clampInt v lo hi = max lo (min hi v)"

text \<open>
  \<^verbatim>\<open>Array.from({ length: WORLD_H }, () => Array(CHUNK_W).fill(BLOCK.AIR))\<close>: the callback
  allocates every row anew, so no two rows share their cells.
\<close>

definition emptyChunk :: chunk where
  "emptyChunk = replicate (nat WORLD_H) (replicate (nat CHUNK_W) AIR)"

text \<open>
  The trunk loop of \<^verbatim>\<open>placeTree\<close>, with its \<^verbatim>\<open>break\<close>:
  \<^verbatim>\<open>for (let i = 0; i < height; i++) { const y = baseY - i; if (y < 0) break; ... }\<close>
\<close>

function trunk :: "int \<Rightarrow> int \<Rightarrow> int \<Rightarrow> int \<Rightarrow> chunk \<Rightarrow> error + chunk" where
  "trunk i height baseY lx chunkData =
     (if i < height then
        (let y = baseY - i in
         if y < 0 then Inr chunkData
         else bindE (cellGet chunkData y lx) (\<lambda>b.
              bindE (if b = AIR then cellSet chunkData y lx LOG else Inr chunkData) (\<lambda>d.
              trunk (i + 1) height baseY lx d)))
      else Inr chunkData)"
  by pat_completeness auto
termination
  by (relation "measure (\<lambda>(i, height, baseY, lx, chunkData). nat (height - i))") auto

declare trunk.simps [simp del]

definition leavesBlob :: "int \<Rightarrow> int \<Rightarrow> chunk \<Rightarrow> error + chunk" where
  "leavesBlob topY lx =
     forE [-2 .. 2] (\<lambda>dy.
       forE [-2 .. 2] (\<lambda>dx chunkData.
         (let y = topY + dy; x = lx + dx in
          if y < 0 \<or> y \<ge> WORLD_H then Inr chunkData
          else if x < 0 \<or> x \<ge> CHUNK_W then Inr chunkData
          else
            (let dist = \<bar>dx\<bar> + \<bar>dy\<bar> in
             if dist \<le> 3 then
               bindE (cellGet chunkData y x) (\<lambda>b.
                 if b = AIR then cellSet chunkData y x LEAVES else Inr chunkData)
             else Inr chunkData))))"

definition placeTree :: "chunk \<Rightarrow> int \<Rightarrow> int \<Rightarrow> int \<Rightarrow> error + chunk" where
  "placeTree chunkData lx baseY wx =
     (let height = 4 + \<lfloor>noise1D (real_of_int wx * 0.9) * 3\<rfloor> in
      bindE (trunk 0 height baseY lx chunkData) (\<lambda>d.
        (let topY = baseY - (height - 1) in leavesBlob topY lx d)))"

text \<open>The three row loops of one column of \<^verbatim>\<open>generateChunk\<close>, in the order of the source.\<close>

definition fillGround :: "int \<Rightarrow> int \<Rightarrow> chunk \<Rightarrow> error + chunk" where
  "fillGround groundY lx =
     forE [groundY .. WORLD_H - 1] (\<lambda>y data.
       if y = groundY then cellSet data y lx GRASS
       else if y < groundY + 4 then cellSet data y lx DIRT
       else cellSet data y lx STONE)"

definition carveCaves :: "int \<Rightarrow> int \<Rightarrow> int \<Rightarrow> chunk \<Rightarrow> error + chunk" where
  "carveCaves wx groundY lx =
     forE [groundY + 4 .. WORLD_H - 1] (\<lambda>y data.
       (let n = noise2D (real_of_int wx * 0.12) (real_of_int y * 0.12) in
        if n > 0.70 then cellSet data y lx AIR else Inr data))"

definition placeOres :: "int \<Rightarrow> int \<Rightarrow> int \<Rightarrow> chunk \<Rightarrow> error + chunk" where
  "placeOres wx groundY lx =
     forE [groundY + 6 .. WORLD_H - 1] (\<lambda>y data.
       bindE (cellGet data y lx) (\<lambda>b.
         if b \<noteq> STONE then Inr data
         else
           (let n = noise2D (real_of_int wx * 0.18) (real_of_int y * 0.18) in
            bindE (if n > 0.82 then cellSet data y lx COAL else Inr data) (\<lambda>d.
              if y > 50 \<and> n > 0.88 then cellSet d y lx IRON else Inr d))))"

definition genColumn :: "int \<Rightarrow> int \<Rightarrow> chunk \<Rightarrow> error + chunk" where
  "genColumn cx lx data =
     (let wx = cx * CHUNK_W + lx;
          h1 = noise1D (real_of_int wx * 0.06) * 8;
          h2 = noise1D (real_of_int wx * 0.012) * 18;
          groundY = clampInt \<lfloor>35 + h1 + h2\<rfloor> 10 (WORLD_H - 2)
      in
        bindE (fillGround groundY lx data) (\<lambda>d1.
        bindE (carveCaves wx groundY lx d1) (\<lambda>d2.
        bindE (placeOres wx groundY lx d2) (\<lambda>d3.
          (let treeChance = noise1D (real_of_int wx * 0.2) in
           if treeChance > 0.86 then
             bindE (cellGet d3 groundY lx) (\<lambda>b.
               if b = GRASS then placeTree d3 lx (groundY - 1) wx else Inr d3)
           else Inr d3)))))"

definition generateChunk :: "int \<Rightarrow> error + chunk" where
  "generateChunk cx = forE [0 .. CHUNK_W - 1] (genColumn cx) emptyChunk"

subsection \<open>The chunk store\<close>

text \<open>
  \<^verbatim>\<open>chunks\<close> is a JavaScript \<^verbatim>\<open>Map\<close> from chunk index to chunk data. It is modelled by the list
  of its entries in insertion order: \<^verbatim>\<open>has\<close>/\<^verbatim>\<open>get\<close> are \<open>map_of\<close>, \<^verbatim>\<open>set\<close> of a new key appends,
  \<^verbatim>\<open>delete\<close> is \<open>AList.delete\<close>, and the length of the list is the number of resident chunks.

  \<^verbatim>\<open>
  function getChunk(cx) {
    if (!chunks.has(cx)) chunks.set(cx, generateChunk(cx));
    return chunks.get(cx);
  }\<close>
\<close>

type_synonym store = "(int \<times> chunk) list"

definition getChunk :: "int \<Rightarrow> store \<Rightarrow> error + (chunk \<times> store)" where
  "getChunk cx chunks =
     (case map_of chunks cx of
        Some data \<Rightarrow> Inr (data, chunks)
      | None \<Rightarrow> bindE (generateChunk cx) (\<lambda>data. Inr (data, chunks @ [(cx, data)])))"

text \<open>The statement \<^verbatim>\<open>getChunk(cx);\<close>, whose result is dropped.\<close>

definition loadChunk :: "int \<Rightarrow> store \<Rightarrow> error + store" where
  "loadChunk cx chunks = bindE (getChunk cx chunks) (\<lambda>(data, chunks'). Inr chunks')"

subsection \<open>Tile helpers\<close>

text \<open>\<^verbatim>\<open>Math.floor(a / b)\<close>, and \<^verbatim>\<open>((a % b) + b) % b\<close> with JavaScript's remainder, which takes
  the sign of the dividend.\<close>

definition floorDiv :: "int \<Rightarrow> int \<Rightarrow> int" where
  "floorDiv a b = \<lfloor>real_of_int a / real_of_int b\<rfloor>"

definition jsRem :: "int \<Rightarrow> int \<Rightarrow> int" where
  "jsRem a b = sgn a * (\<bar>a\<bar> mod \<bar>b\<bar>)"

definition mod_js :: "int \<Rightarrow> int \<Rightarrow> int" where
  "mod_js a b = jsRem (jsRem a b + b) b"

text \<open>
  \<^verbatim>\<open>getChunk\<close> returns the array the map holds, so the write of \<^verbatim>\<open>setBlock\<close> changes the
  resident chunk: the model puts the updated chunk back under its key.
\<close>

definition getBlock :: "int \<Rightarrow> int \<Rightarrow> store \<Rightarrow> error + (block \<times> store)" where
  "getBlock tx ty chunks =
     (if ty < 0 \<or> ty \<ge> WORLD_H then Inr (AIR, chunks)
      else
        (let cx = floorDiv tx CHUNK_W; lx = mod_js tx CHUNK_W in
         bindE (getChunk cx chunks) (\<lambda>(chunk, chunks').
         bindE (cellGet chunk ty lx) (\<lambda>b. Inr (b, chunks')))))"

definition setBlock :: "int \<Rightarrow> int \<Rightarrow> block \<Rightarrow> store \<Rightarrow> error + store" where
  "setBlock tx ty bid chunks =
     (if ty < 0 \<or> ty \<ge> WORLD_H then Inr chunks
      else
        (let cx = floorDiv tx CHUNK_W; lx = mod_js tx CHUNK_W in
         bindE (getChunk cx chunks) (\<lambda>(chunk, chunks').
         bindE (cellSet chunk ty lx bid) (\<lambda>chunk'.
           Inr (AList.update cx chunk' chunks')))))"

definition worldToTile :: "real \<Rightarrow> real \<Rightarrow> int \<times> int" where
  "worldToTile wx wy = (\<lfloor>wx / real_of_int TILE\<rfloor>, \<lfloor>wy / real_of_int TILE\<rfloor>)"

subsection \<open>The player\<close>

text \<open>The fields \<^verbatim>\<open>x, y, w, h, vx, vy\<close> of the \<^verbatim>\<open>player\<close> object carry the prefix \<open>p\<close> here.\<close>

record player =
  px :: real
  py :: real
  pw :: real
  ph :: real
  pvx :: real
  pvy :: real
  onGround :: bool
  maxHealth :: real
  health :: real
  maxHunger :: real
  hunger :: real

subsection \<open>Chunk loading\<close>

text \<open>
  \<^verbatim>\<open>
  function ensureChunksLoaded() {
    const playerTileX = Math.floor(player.x / TILE);
    const playerChunkX = floorDiv(playerTileX, CHUNK_W);
    for (let cx = playerChunkX - LOAD_RADIUS; cx <= playerChunkX + LOAD_RADIUS; cx++) {
      getChunk(cx);
    }
    for (const cx of chunks.keys()) {
      if (Math.abs(cx - playerChunkX) > LOAD_RADIUS + 2) {
        chunks.delete(cx);
      }
    }
  }\<close>
  Deleting the entry under the iterator does not disturb the iteration of a \<^verbatim>\<open>Map\<close>, so
  the second loop visits every key that was present when it started.
\<close>

definition playerChunkX :: "player \<Rightarrow> int" where
  "playerChunkX p = floorDiv \<lfloor>px p / real_of_int TILE\<rfloor> CHUNK_W"

definition evictFar :: "int \<Rightarrow> store \<Rightarrow> store" where
  "evictFar c chunks =
     fold (\<lambda>cx s. if \<bar>cx - c\<bar> > LOAD_RADIUS + 2 then AList.delete cx s else s)
          (map fst chunks) chunks"

definition ensureChunksLoaded :: "player \<Rightarrow> store \<Rightarrow> error + store" where
  "ensureChunksLoaded p chunks =
     (let c = playerChunkX p in
      bindE (forE [c - LOAD_RADIUS .. c + LOAD_RADIUS] loadChunk chunks) (\<lambda>loaded.
        Inr (evictFar c loaded)))"

subsection \<open>Collision\<close>

text \<open>
  \<^verbatim>\<open>rectHitsWorld\<close> scans the tiles under the rectangle row by row and returns at the first
  solid one. \<open>rectTiles\<close> lists the tiles in the order of the two nested loops.
\<close>

definition rectTiles :: "real \<Rightarrow> real \<Rightarrow> real \<Rightarrow> real \<Rightarrow> (int \<times> int) list" where
  "rectTiles x y w h =
     (let left = \<lfloor>x / real_of_int TILE\<rfloor>;
          right = \<lfloor>(x + w - 1) / real_of_int TILE\<rfloor>;
          top = \<lfloor>y / real_of_int TILE\<rfloor>;
          bottom = \<lfloor>(y + h - 1) / real_of_int TILE\<rfloor>
      in concat (map (\<lambda>ty. map (\<lambda>tx. (tx, ty)) [left .. right]) [top .. bottom]))"

fun anySolid :: "(int \<times> int) list \<Rightarrow> store \<Rightarrow> error + (bool \<times> store)" where
  "anySolid [] chunks = Inr (False, chunks)"
| "anySolid ((tx, ty) # ts) chunks =
     bindE (getBlock tx ty chunks) (\<lambda>(b, chunks').
       if isSolid b then Inr (True, chunks') else anySolid ts chunks')"

definition rectHitsWorld :: "real \<Rightarrow> real \<Rightarrow> real \<Rightarrow> real \<Rightarrow> store \<Rightarrow> error + (bool \<times> store)" where
  "rectHitsWorld x y w h chunks = anySolid (rectTiles x y w h) chunks"

text \<open>
  The two retreat loops
  \<^verbatim>\<open>while (rectHitsWorld(player.x, player.y, player.w, player.h)) player.x -= step;\<close>
  (and the same on \<^verbatim>\<open>player.y\<close>). A loop that never ends has the value \<open>None\<close>; an exception
  ends it with \<open>Some (Inl e)\<close>.
\<close>

partial_function (option) retreatX :: "real \<Rightarrow> player \<Rightarrow> store \<Rightarrow> (error + player \<times> store) option"
  where
  "retreatX step p chunks =
     (case rectHitsWorld (px p) (py p) (pw p) (ph p) chunks of
        Inl e \<Rightarrow> Some (Inl e)
      | Inr (hit, chunks') \<Rightarrow>
          if hit then retreatX step (p\<lparr>px := px p - step\<rparr>) chunks'
          else Some (Inr (p, chunks')))"

partial_function (option) retreatY :: "real \<Rightarrow> player \<Rightarrow> store \<Rightarrow> (error + player \<times> store) option"
  where
  "retreatY step p chunks =
     (case rectHitsWorld (px p) (py p) (pw p) (ph p) chunks of
        Inl e \<Rightarrow> Some (Inl e)
      | Inr (hit, chunks') \<Rightarrow>
          if hit then retreatY step (p\<lparr>py := py p - step\<rparr>) chunks'
          else Some (Inr (p, chunks')))"

declare retreatX.simps [code]
declare retreatY.simps [code]

definition bindOE ::
  "(error + 'a) option \<Rightarrow> ('a \<Rightarrow> (error + 'b) option) \<Rightarrow> (error + 'b) option" where
  "bindOE m f = (case m of None \<Rightarrow> None | Some (Inl e) \<Rightarrow> Some (Inl e) | Some (Inr a) \<Rightarrow> f a)"

text \<open>\<^verbatim>\<open>Math.sign(v) || 1\<close>: the sign, and 1 where the sign is 0.\<close>

definition signOr1 :: "real \<Rightarrow> real" where
  "signOr1 v = (if sgn v = 0 then 1 else sgn v)"

text \<open>
  One axis of \<^verbatim>\<open>moveAndCollide\<close> after the position was advanced: the test, the retreat
  with the given step, and the reset of the velocity. \<open>step\<close> is what the source binds to
  \<^verbatim>\<open>const step\<close> inside the \<^verbatim>\<open>if\<close>.
\<close>

definition pushOutX :: "real \<Rightarrow> player \<Rightarrow> store \<Rightarrow> (error + player \<times> store) option" where
  "pushOutX step p chunks =
     (case rectHitsWorld (px p) (py p) (pw p) (ph p) chunks of
        Inl e \<Rightarrow> Some (Inl e)
      | Inr (hit, chunks1) \<Rightarrow>
          if hit then
            bindOE (retreatX step p chunks1) (\<lambda>(p', chunks2).
              Some (Inr (p'\<lparr>pvx := 0\<rparr>, chunks2)))
          else Some (Inr (p, chunks1)))"

definition pushOutY :: "real \<Rightarrow> player \<Rightarrow> store \<Rightarrow> (error + player \<times> store) option" where
  "pushOutY step p chunks =
     (case rectHitsWorld (px p) (py p) (pw p) (ph p) chunks of
        Inl e \<Rightarrow> Some (Inl e)
      | Inr (hit, chunks1) \<Rightarrow>
          if hit then
            bindOE (retreatY step p chunks1) (\<lambda>(p', chunks2).
              Some (Inr (p'\<lparr>onGround := (if step > 0 then True else onGround p'), pvy := 0\<rparr>,
                         chunks2)))
          else Some (Inr (p, chunks1)))"

text \<open>
  \<^verbatim>\<open>
  function moveAndCollide() {
    player.x += player.vx;
    if (rectHitsWorld(player.x, player.y, player.w, player.h)) {
      const step = Math.sign(player.vx) || 1;
      while (rectHitsWorld(player.x, player.y, player.w, player.h)) player.x -= step;
      player.vx = 0;
    }
    player.y += player.vy;
    player.onGround = false;
    if (rectHitsWorld(player.x, player.y, player.w, player.h)) {
      const step = Math.sign(player.vy) || 1;
      while (rectHitsWorld(player.x, player.y, player.w, player.h)) player.y -= step;
      if (step > 0) player.onGround = true;
      player.vy = 0;
    }
  }\<close>
\<close>

definition moveAndCollide :: "player \<Rightarrow> store \<Rightarrow> (error + player \<times> store) option" where
  "moveAndCollide p chunks =
     (let p1 = p\<lparr>px := px p + pvx p\<rparr> in
      bindOE (pushOutX (signOr1 (pvx p1)) p1 chunks) (\<lambda>(p2, chunks2).
        (let p3 = p2\<lparr>py := py p2 + pvy p2, onGround := False\<rparr> in
         pushOutY (signOr1 (pvy p3)) p3 chunks2)))"

text \<open>
  \<^verbatim>\<open>src/script.js\<close> has the same function without the fallback
  (\<^verbatim>\<open>const step = Math.sign(player.vx);\<close>, and the same for \<^verbatim>\<open>vy\<close>); its \<^verbatim>\<open>rectVsWorld\<close> is the
  scan above under another name.
\<close>

definition moveAndCollide_script :: "player \<Rightarrow> store \<Rightarrow> (error + player \<times> store) option" where
  "moveAndCollide_script p chunks =
     (let p1 = p\<lparr>px := px p + pvx p\<rparr> in
      bindOE (pushOutX (sgn (pvx p1)) p1 chunks) (\<lambda>(p2, chunks2).
        (let p3 = p2\<lparr>py := py p2 + pvy p2, onGround := False\<rparr> in
         pushOutY (sgn (pvy p3)) p3 chunks2)))"

subsection \<open>Survival\<close>

text \<open>
  \<open>r1\<close> and \<open>r2\<close> are the values of the two calls of \<^verbatim>\<open>Math.random()\<close> (each is drawn only
  when its branch is reached); \<open>hungerTimer\<close> is the module variable of that name.
\<close>

definition respawn :: "player \<Rightarrow> player" where
  "respawn p = p\<lparr>health := maxHealth p, hunger := maxHunger p,
                 px := 2 * real_of_int TILE, py := 10 * real_of_int TILE,
                 pvx := 0, pvy := 0\<rparr>"

text \<open>
  The four blocks of \<^verbatim>\<open>updateSurvival\<close>, in the order of the source:
  \<^verbatim>\<open>
  const moving = Math.abs(player.vx) > 0.2;
  hungerTimer += dt * (moving ? 1.4 : 1.0);
  if (hungerTimer > 4.0) { hungerTimer = 0; player.hunger = Math.max(0, player.hunger - 1); }
  // regen
  if (player.hunger >= 16 && player.health < player.maxHealth) {
    if (Math.random() < 0.02) player.health = Math.min(player.maxHealth, player.health + 1);
  }
  // starvation
  if (player.hunger === 0) {
    if (Math.random() < 0.03) player.health = Math.max(0, player.health - 1);
  }
  if (player.health <= 0) respawn();\<close>
\<close>

definition drainHunger :: "real \<Rightarrow> player \<times> real \<Rightarrow> player \<times> real" where
  "drainHunger dt st =
     (let (p, hungerTimer) = st;
          moving = \<bar>pvx p\<bar> > 0.2;
          t1 = hungerTimer + dt * (if moving then 1.4 else 1.0)
      in if t1 > 4.0 then (p\<lparr>hunger := max 0 (hunger p - 1)\<rparr>, 0) else (p, t1))"

definition regen :: "real \<Rightarrow> player \<Rightarrow> player" where
  "regen r1 p =
     (if hunger p \<ge> 16 \<and> health p < maxHealth p then
        (if r1 < 0.02 then p\<lparr>health := min (maxHealth p) (health p + 1)\<rparr> else p)
      else p)"

definition starve :: "real \<Rightarrow> player \<Rightarrow> player" where
  "starve r2 p =
     (if hunger p = 0 then
        (if r2 < 0.03 then p\<lparr>health := max 0 (health p - 1)\<rparr> else p)
      else p)"

definition updateSurvival :: "real \<Rightarrow> real \<Rightarrow> real \<Rightarrow> player \<times> real \<Rightarrow> player \<times> real" where
  "updateSurvival dt r1 r2 st =
     (let (p1, hungerTimer) = drainHunger dt st;
          p2 = regen r1 p1;
          p3 = starve r2 p2
      in (if health p3 \<le> 0 then respawn p3 else p3, hungerTimer))"

text \<open>
  \<^verbatim>\<open>src/script.js\<close> has the same function with one difference, in the regeneration:
  \<^verbatim>\<open>if (Math.random() < 0.02) player.health += 1;\<close> (no \<^verbatim>\<open>Math.min\<close>); its respawn code is
  written inline.
\<close>

definition regen_script :: "real \<Rightarrow> player \<Rightarrow> player" where
  "regen_script r1 p =
     (if hunger p \<ge> 16 \<and> health p < maxHealth p then
        (if r1 < 0.02 then p\<lparr>health := health p + 1\<rparr> else p)
      else p)"

definition updateSurvival_script ::
  "real \<Rightarrow> real \<Rightarrow> real \<Rightarrow> player \<times> real \<Rightarrow> player \<times> real" where
  "updateSurvival_script dt r1 r2 st =
     (let (p1, hungerTimer) = drainHunger dt st;
          p2 = regen_script r1 p1;
          p3 = starve r2 p2
      in (if health p3 \<le> 0 then respawn p3 else p3, hungerTimer))"

subsection \<open>Inventory and the mouse handler\<close>

record slot =
  block :: block
  count :: int

record game =
  player :: player
  hotbar :: "slot list"
  selectedSlot :: int
  chunks :: store

text \<open>\<^verbatim>\<open>hotbar[selectedSlot]\<close>, which is \<^verbatim>\<open>undefined\<close> (\<open>None\<close>) outside the array.\<close>

definition slotAt :: "slot list \<Rightarrow> int \<Rightarrow> slot option" where
  "slotAt hb i = (if 0 \<le> i \<and> i < int (length hb) then Some (hb ! nat i) else None)"

fun addToInventory :: "block \<Rightarrow> int \<Rightarrow> slot list \<Rightarrow> slot list" where
  "addToInventory blockId amount [] = []"
| "addToInventory blockId amount (s # ss) =
     (if block s = blockId then s\<lparr>count := count s + amount\<rparr> # ss
      else s # addToInventory blockId amount ss)"

definition removeFromSelected :: "int \<Rightarrow> game \<Rightarrow> game" where
  "removeFromSelected amount g =
     (case slotAt (hotbar g) (selectedSlot g) of
        None \<Rightarrow> g
      | Some s \<Rightarrow>
          if count s < amount then g
          else g\<lparr>hotbar := (hotbar g)[nat (selectedSlot g) := s\<lparr>count := count s - amount\<rparr>]\<rparr>)"

text \<open>\<^verbatim>\<open>Math.hypot(px - cx, py - cy) <= REACH\<close>, from the player's centre to the tile's centre.\<close>

definition withinReach :: "player \<Rightarrow> int \<Rightarrow> int \<Rightarrow> bool" where
  "withinReach p tx ty =
     (let pcx = px p + pw p / 2;
          pcy = py p + ph p / 2;
          cx = real_of_int (tx * TILE) + real_of_int TILE / 2;
          cy = real_of_int (ty * TILE) + real_of_int TILE / 2
      in sqrt ((pcx - cx)\<^sup>2 + (pcy - cy)\<^sup>2) \<le> REACH)"

definition overlapsPlayer :: "player \<Rightarrow> int \<Rightarrow> int \<Rightarrow> bool" where
  "overlapsPlayer p tx ty =
     (let rx = real_of_int (tx * TILE); ry = real_of_int (ty * TILE) in
      \<not> (rx + real_of_int TILE \<le> px p \<or> rx \<ge> px p + pw p \<or>
         ry + real_of_int TILE \<le> py p \<or> ry \<ge> py p + ph p))"

text \<open>
  The \<^verbatim>\<open>mousedown\<close> handler, from the world coordinates \<^verbatim>\<open>wx, wy\<close> that \<^verbatim>\<open>screenToWorld\<close>
  returns: button 0 breaks, button 2 places.
\<close>

definition mousedown :: "int \<Rightarrow> real \<Rightarrow> real \<Rightarrow> game \<Rightarrow> error + game" where
  "mousedown button wx wy g =
     (let (tx, ty) = worldToTile wx wy in
      if \<not> withinReach (player g) tx ty then Inr g
      else if button = 0 then
        bindE (getBlock tx ty (chunks g)) (\<lambda>(b, c1).
          if b \<noteq> AIR then
            bindE (setBlock tx ty AIR c1) (\<lambda>c2.
              Inr (g\<lparr>hotbar := addToInventory b 1 (hotbar g), chunks := c2\<rparr>))
          else Inr (g\<lparr>chunks := c1\<rparr>))
      else if button = 2 then
        (case slotAt (hotbar g) (selectedSlot g) of
           None \<Rightarrow> Inr g
         | Some slot \<Rightarrow>
             if count slot \<le> 0 then Inr g
             else
               bindE (getBlock tx ty (chunks g)) (\<lambda>(b, c1).
                 if b \<noteq> AIR then Inr (g\<lparr>chunks := c1\<rparr>)
                 else if overlapsPlayer (player g) tx ty then Inr (g\<lparr>chunks := c1\<rparr>)
                 else
                   bindE (setBlock tx ty (block slot) c1) (\<lambda>c2.
                     Inr (removeFromSelected 1 (g\<lparr>chunks := c2\<rparr>)))))
      else Inr g)"

subsection \<open>The hash of \<^verbatim>\<open>src/script.js\<close>\<close>

text \<open>
  \<^verbatim>\<open>
  function hash2D(x, y) {
    let n = x * 374761393 + y * 668265263 + SEED * 1442695040888963407n; // mix
    n = BigInt.asUintN(64, BigInt(n));
    n ^= (n >> 12n);
    n ^= (n << 25n);
    n ^= (n >> 27n);
    const out = Number(n & 0xFFFFFFFFn) / 0x100000000;
    return out;
  }\<close>
  A value is a Number (integer-valued or not finite, as above) or a BigInt; \<^verbatim>\<open>*\<close> and \<^verbatim>\<open>+\<close>
  throw a TypeError when one operand is a Number and the other a BigInt, and \<^verbatim>\<open>BigInt(n)\<close>
  throws a RangeError when \<^verbatim>\<open>n\<close> is not finite.
\<close>

datatype jsval = Number "int option" | BigInt int

fun timesJS :: "jsval \<Rightarrow> jsval \<Rightarrow> error + jsval" where
  "timesJS (Number a) (Number b) = Inr (Number (jsMul a b))"
| "timesJS (BigInt a) (BigInt b) = Inr (BigInt (a * b))"
| "timesJS _ _ = Inl TypeError"

fun plusJS :: "jsval \<Rightarrow> jsval \<Rightarrow> error + jsval" where
  "plusJS (Number a) (Number b) = Inr (Number (jsAdd a b))"
| "plusJS (BigInt a) (BigInt b) = Inr (BigInt (a + b))"
| "plusJS _ _ = Inl TypeError"

fun toBigInt :: "jsval \<Rightarrow> error + int" where
  "toBigInt (BigInt a) = Inr a"
| "toBigInt (Number (Some a)) = Inr a"
| "toBigInt (Number None) = Inl RangeError"

definition hash2D_script :: "int \<Rightarrow> int \<Rightarrow> error + real" where
  "hash2D_script x y =
     bindE (timesJS (Number (Some x)) (Number (Some 374761393))) (\<lambda>a.
     bindE (timesJS (Number (Some y)) (Number (Some 668265263))) (\<lambda>b.
     bindE (plusJS a b) (\<lambda>ab.
     bindE (timesJS (Number (Some SEED)) (BigInt 1442695040888963407)) (\<lambda>c.
     bindE (plusJS ab c) (\<lambda>n.
     bindE (toBigInt n) (\<lambda>n0.
       (let n1 = n0 mod 2 ^ 64;
            n2 = n1 XOR drop_bit 12 n1;
            n3 = n2 XOR push_bit 25 n2;
            n4 = n3 XOR drop_bit 27 n3
        in Inr (real_of_int (n4 AND 4294967295) / 4294967296))))))))"

subsection \<open>Auxiliary notions for the proofs\<close>

text \<open>A step that returns a well-formed chunk (used to state that generation cannot fail).\<close>

definition okC :: "error + chunk \<Rightarrow> bool" where
  "okC m = (case m of Inl e \<Rightarrow> False | Inr d \<Rightarrow> wf_chunk d)"

text \<open>The keys of the map after \<^verbatim>\<open>getChunk(k)\<close>: a new key goes last.\<close>

definition addKey :: "int \<Rightarrow> int list \<Rightarrow> int list" where
  "addKey k ks = (if k \<in> set ks then ks else ks @ [k])"

text \<open>A valid map: distinct keys, and every resident chunk has the shape of a generated one.\<close>

definition wf_store :: "store \<Rightarrow> bool" where
  "wf_store s \<longleftrightarrow> distinct (map fst s) \<and> list_all wf_chunk (map snd s)"

text \<open>The block a call \<^verbatim>\<open>getBlock(tx, ty)\<close> returns, without the map it leaves behind.\<close>

definition blockAt :: "store \<Rightarrow> int \<Rightarrow> int \<Rightarrow> error + block" where
  "blockAt s tx ty = bindE (getBlock tx ty s) (\<lambda>(b, s'). Inr b)"

text \<open>The \<^verbatim>\<open>player\<close> object as the source initialises it.\<close>

definition initialPlayer :: player where
  "initialPlayer =
     \<lparr>px = 2 * real_of_int TILE, py = 10 * real_of_int TILE, pw = 26, ph = 30,
      pvx = 0, pvy = 0, onGround = False,
      maxHealth = 20, health = 20, maxHunger = 20, hunger = 20\<rparr>"

text \<open>Requesting the chunks \<open>ks\<close> from the empty map, then one load/evict pass for \<open>p\<close>.\<close>

definition requestAndEnsure :: "int list \<Rightarrow> player \<Rightarrow> error + store" where
  "requestAndEnsure ks p = bindE (forE ks loadChunk []) (ensureChunksLoaded p)"

definition residentKeys :: "error + store \<Rightarrow> error + int set" where
  "residentKeys r = map_sum id (\<lambda>s. set (map fst s)) r"

text \<open>The bounds of the vitals.\<close>

definition vitals_ok :: "player \<Rightarrow> bool" where
  "vitals_ok p \<longleftrightarrow>
     0 \<le> health p \<and> health p \<le> maxHealth p \<and> 0 \<le> hunger p \<and> hunger p \<le> maxHunger p"

text \<open>
  The chunk a call \<^verbatim>\<open>getChunk(cx)\<close> returns: the resident one, or the generated one. It is
  what the world looks like through the chunk map, whether a chunk is loaded or not.
\<close>

definition chunkView :: "store \<Rightarrow> int \<Rightarrow> error + chunk" where
  "chunkView s cx = (case map_of s cx of Some g \<Rightarrow> Inr g | None \<Rightarrow> generateChunk cx)"

definition solidAt :: "store \<Rightarrow> int \<Rightarrow> int \<Rightarrow> bool" where
  "solidAt s tx ty = (case blockAt s tx ty of Inl e \<Rightarrow> False | Inr b \<Rightarrow> isSolid b)"

text \<open>The tile rows and columns that \<^verbatim>\<open>rectHitsWorld\<close> scans, and what the scan answers.\<close>

definition rowsOf :: "real \<Rightarrow> real \<Rightarrow> int set" where
  "rowsOf y h = {\<lfloor>y / real_of_int TILE\<rfloor> .. \<lfloor>(y + h - 1) / real_of_int TILE\<rfloor>}"

definition colsOf :: "real \<Rightarrow> real \<Rightarrow> int set" where
  "colsOf x w = {\<lfloor>x / real_of_int TILE\<rfloor> .. \<lfloor>(x + w - 1) / real_of_int TILE\<rfloor>}"

definition hitP :: "store \<Rightarrow> real \<Rightarrow> real \<Rightarrow> real \<Rightarrow> real \<Rightarrow> bool" where
  "hitP s x y w h = (\<exists>tx \<in> colsOf x w. \<exists>ty \<in> rowsOf y h. solidAt s tx ty)"

text \<open>The \<^verbatim>\<open>hotbar\<close> array as the source initialises it.\<close>

definition initialHotbar :: "slot list" where
  "initialHotbar =
     [\<lparr>block = DIRT, count = 40\<rparr>, \<lparr>block = STONE, count = 0\<rparr>, \<lparr>block = LOG, count = 0\<rparr>,
      \<lparr>block = LEAVES, count = 0\<rparr>, \<lparr>block = GRASS, count = 0\<rparr>, \<lparr>block = IRON, count = 0\<rparr>]"

text \<open>A game at its start in which chunk 0 is resident and holds only Air.\<close>

definition airGame :: game where
  "airGame = \<lparr>player = initialPlayer, hotbar = initialHotbar, selectedSlot = 0,
               chunks = [(0, emptyChunk)]\<rparr>"

text \<open>
  Fixtures for the collision properties: a chunk that is Air but for a stone floor in row
  \<open>r\<close>, a chunk that is Air but for one stone block at tile \<open>(2, 10)\<close> (where the player
  spawns), and what a call of \<^verbatim>\<open>moveAndCollide\<close> leaves: the player's bottom edge \<^verbatim>\<open>y + h\<close>,
  \<^verbatim>\<open>vy\<close> and \<^verbatim>\<open>onGround\<close> (\<open>None\<close> when the call throws or does not return).
\<close>

definition floorChunk :: "int \<Rightarrow> chunk" where
  "floorChunk r = emptyChunk[nat r := replicate (nat CHUNK_W) STONE]"

definition blockedChunk :: chunk where
  "blockedChunk = emptyChunk[10 := (emptyChunk ! 10)[2 := STONE]]"

definition outcome :: "(error + player \<times> store) option \<Rightarrow> (real \<times> real \<times> bool) option" where
  "outcome r = (case r of
                  Some (Inr (p, s)) \<Rightarrow> Some (py p + ph p, pvy p, onGround p)
                | _ \<Rightarrow> None)"

section \<open>Properties of the generator\<close>

lemma bindE_Inr [simp]: "bindE (Inr a) f = f a"
  by (simp add: bindE_def)

lemma bindE_Inl [simp]: "bindE (Inl e) f = Inl e"
  by (simp add: bindE_def)

lemma bindE_eq_Inr:
  "bindE m f = Inr b \<longleftrightarrow> (\<exists>a. m = Inr a \<and> f a = Inr b)"
  by (cases m) simp_all

text \<open>A loop whose body keeps an invariant and never fails keeps it and does not fail.\<close>

lemma forE_inv:
  assumes "P s"
    and "\<And>i s. i \<in> set is \<Longrightarrow> P s \<Longrightarrow> \<exists>s'. body i s = Inr s' \<and> P s'"
  shows "\<exists>s'. forE is body s = Inr s' \<and> P s'"
  using assms
proof (induction "is" arbitrary: s)
  case Nil
  then show ?case by simp
next
  case (Cons i "is")
  from Cons.prems obtain s1 where s1: "body i s = Inr s1" "P s1"
    by (meson list.set_intros(1))
  have "\<exists>s'. forE is body s1 = Inr s' \<and> P s'"
    by (rule Cons.IH [OF s1(2)]) (simp add: Cons.prems(2))
  with s1 show ?case by simp
qed

lemma wf_chunk_length: "wf_chunk d \<Longrightarrow> int (length d) = WORLD_H"
  by (metis wf_chunk_def length_map length_replicate WORLD_H_def int_nat_eq
      zero_le_numeral)

lemma wf_chunk_row:
  assumes "wf_chunk d" "0 \<le> y" "y < WORLD_H"
  shows "int (length (d ! nat y)) = CHUNK_W"
proof -
  have n: "nat y < length d"
    using assms wf_chunk_length [of d] by linarith
  have "map length d ! nat y = replicate (nat WORLD_H) (nat CHUNK_W) ! nat y"
    using assms(1) by (simp add: wf_chunk_def)
  moreover have "nat y < nat WORLD_H"
    using assms by linarith
  ultimately have "length (d ! nat y) = nat CHUNK_W"
    using n by simp
  then show ?thesis by (simp add: CHUNK_W_def)
qed

lemma wf_emptyChunk: "wf_chunk emptyChunk"
  by (simp add: wf_chunk_def emptyChunk_def)

lemma cellGet_wf:
  assumes "wf_chunk d" "0 \<le> y" "y < WORLD_H" "0 \<le> x" "x < CHUNK_W"
  shows "cellGet d y x = Inr (d ! nat y ! nat x)"
  using assms wf_chunk_length [of d] wf_chunk_row [of d y]
  by (simp add: cellGet_def)

lemma cellSet_wf:
  assumes "wf_chunk d" "0 \<le> y" "y < WORLD_H" "0 \<le> x" "x < CHUNK_W"
  shows "cellSet d y x v = Inr (d[nat y := (d ! nat y)[nat x := v]])
         \<and> wf_chunk (d[nat y := (d ! nat y)[nat x := v]])"
proof -
  have "map length (d[nat y := (d ! nat y)[nat x := v]])
        = (map length d)[nat y := length (d ! nat y)]"
    by (simp add: map_update)
  also have "\<dots> = map length d"
    by (metis list_update_beyond list_update_id not_le_imp_less nth_map length_map)
  finally have "wf_chunk (d[nat y := (d ! nat y)[nat x := v]])"
    using assms(1) by (simp add: wf_chunk_def)
  then show ?thesis
    using assms wf_chunk_length [of d] wf_chunk_row [of d y]
    by (simp add: cellSet_def)
qed

lemma cellSet_ok:
  assumes "wf_chunk d" "0 \<le> y" "y < WORLD_H" "0 \<le> x" "x < CHUNK_W"
  shows "\<exists>d'. cellSet d y x v = Inr d' \<and> wf_chunk d'"
  using cellSet_wf [OF assms] by blast

lemma okC_iff: "okC m \<longleftrightarrow> (\<exists>d. m = Inr d \<and> wf_chunk d)"
  by (cases m) (simp_all add: okC_def)

lemma okC_Inr: "wf_chunk d \<Longrightarrow> okC (Inr d)"
  by (simp add: okC_def)

lemma okC_bindE: "okC m \<Longrightarrow> (\<And>d. wf_chunk d \<Longrightarrow> okC (f d)) \<Longrightarrow> okC (bindE m f)"
  by (auto simp: okC_iff)

lemma okC_if: "(c \<Longrightarrow> okC a) \<Longrightarrow> (\<not> c \<Longrightarrow> okC b) \<Longrightarrow> okC (if c then a else b)"
  by simp

lemma okC_Let: "okC (f v) \<Longrightarrow> okC (Let v f)"
  by simp

lemma okC_cellSet:
  "wf_chunk d \<Longrightarrow> 0 \<le> y \<Longrightarrow> y < WORLD_H \<Longrightarrow> 0 \<le> x \<Longrightarrow> x < CHUNK_W \<Longrightarrow> okC (cellSet d y x v)"
  using cellSet_ok [of d y x v] by (simp add: okC_iff)

lemma okC_cellGet:
  "wf_chunk d \<Longrightarrow> 0 \<le> y \<Longrightarrow> y < WORLD_H \<Longrightarrow> 0 \<le> x \<Longrightarrow> x < CHUNK_W
   \<Longrightarrow> (\<And>b. okC (f b)) \<Longrightarrow> okC (bindE (cellGet d y x) f)"
  by (simp add: cellGet_wf)

lemma okC_forE:
  "wf_chunk d \<Longrightarrow> (\<And>i s. i \<in> set is \<Longrightarrow> wf_chunk s \<Longrightarrow> okC (body i s)) \<Longrightarrow> okC (forE is body d)"
  unfolding okC_iff by (rule forE_inv [where P = wf_chunk]) auto

lemma fillGround_ok:
  assumes "wf_chunk d" "0 \<le> g" "0 \<le> lx" "lx < CHUNK_W"
  shows "okC (fillGround g lx d)"
  unfolding fillGround_def using assms
  by (intro okC_forE okC_if okC_cellSet) auto

lemma carveCaves_ok:
  assumes "wf_chunk d" "0 \<le> g" "0 \<le> lx" "lx < CHUNK_W"
  shows "okC (carveCaves wx g lx d)"
  unfolding carveCaves_def using assms
  by (intro okC_forE okC_Let okC_if okC_cellSet okC_Inr) auto

lemma placeOres_ok:
  assumes "wf_chunk d" "0 \<le> g" "0 \<le> lx" "lx < CHUNK_W"
  shows "okC (placeOres wx g lx d)"
  unfolding placeOres_def using assms
  by (intro okC_forE okC_cellGet okC_Let okC_if okC_bindE okC_cellSet okC_Inr) auto

lemma trunk_ok:
  assumes "wf_chunk d" "0 \<le> i" "baseY < WORLD_H" "0 \<le> lx" "lx < CHUNK_W"
  shows "okC (trunk i height baseY lx d)"
  using assms
proof (induction i height baseY lx d rule: trunk.induct)
  case (1 i height baseY lx chunkData)
  have step: "okC (trunk (i + 1) height baseY lx d')"
    if "i < height" "\<not> baseY - i < 0" "wf_chunk d'" for d'
    using "1.IH" [OF that(1) refl that(2) that(3)] "1.prems" by simp
  show ?case
    using "1.prems"
    by (subst trunk.simps)
      (intro okC_if okC_Let okC_cellGet okC_bindE okC_cellSet okC_Inr step; simp)
qed

lemma leavesBlob_ok:
  assumes "wf_chunk d"
  shows "okC (leavesBlob topY lx d)"
  unfolding leavesBlob_def using assms
  by (intro okC_forE okC_cellGet okC_Let okC_if okC_cellSet okC_Inr) auto

lemma placeTree_ok:
  assumes "wf_chunk d" "baseY < WORLD_H" "0 \<le> lx" "lx < CHUNK_W"
  shows "okC (placeTree d lx baseY wx)"
  unfolding placeTree_def using assms
  by (intro okC_Let okC_bindE trunk_ok leavesBlob_ok) auto

lemma clampInt_range: "lo \<le> hi \<Longrightarrow> lo \<le> clampInt v lo hi \<and> clampInt v lo hi \<le> hi"
  by (simp add: clampInt_def)

lemma genColumn_ok:
  assumes "wf_chunk d" "0 \<le> lx" "lx < CHUNK_W"
  shows "okC (genColumn cx lx d)"
proof -
  have g: "0 \<le> clampInt v 10 (WORLD_H - 2)" "clampInt v 10 (WORLD_H - 2) < WORLD_H" for v
    using clampInt_range [of 10 "WORLD_H - 2" v] by (simp_all add: WORLD_H_def)
  have g': "clampInt v 10 (WORLD_H - 2) - 1 < WORLD_H" for v
    using g(2) [of v] by simp
  show ?thesis
    unfolding genColumn_def using assms
    by (intro okC_Let okC_bindE fillGround_ok carveCaves_ok placeOres_ok okC_if okC_cellGet
        placeTree_ok okC_Inr g g') 
qed

lemma generateChunk_okC: "okC (generateChunk cx)"
  unfolding generateChunk_def
  by (intro okC_forE wf_emptyChunk genColumn_ok) auto

lemma generateChunk_ok: "\<exists>g. generateChunk cx = Inr g \<and> wf_chunk g"
  using generateChunk_okC [of cx] by (simp add: okC_iff)

section \<open>The hash\<close>

text \<open>
  Claim C3 on \<^verbatim>\<open>src/script.js\<close>. For every pair of integers, \<^verbatim>\<open>hash2D(x, y)\<close> of that file throws a
  TypeError instead of returning a value in \<open>[0, 1)\<close>: \<^verbatim>\<open>SEED * 1442695040888963407n\<close>
  multiplies a Number by a BigInt.
\<close>

theorem hash2D_script_throws: "hash2D_script x y = Inl TypeError"
  by (simp add: hash2D_script_def)

text \<open>
  The 32-bit \<^verbatim>\<open>hash2D\<close> (the variant without BigInt) returns, for every pair of integers, a
  32-bit unsigned value divided by \<open>2^32\<close>: a number in \<open>[0, 1)\<close>.
\<close>

theorem hash2D_range: "0 \<le> hash2D x y \<and> hash2D x y < 1"
proof -
  define n where "n = uint (hash2D_bits x y)"
  have "0 \<le> n" "n < 4294967296"
    using uint_bounded [of "hash2D_bits x y"] by (simp_all add: n_def)
  then have "0 \<le> real_of_int n" "real_of_int n < 4294967296"
    by linarith+
  then show ?thesis
    by (simp add: hash2D_def n_def [symmetric])
qed

section \<open>The chunk store\<close>

lemma getChunk_cases:
  "\<exists>g s'. getChunk cx s = Inr (g, s') \<and>
      ((map_of s cx = Some g \<and> s' = s) \<or>
       (map_of s cx = None \<and> generateChunk cx = Inr g \<and> wf_chunk g \<and> s' = s @ [(cx, g)]))"
proof (cases "map_of s cx")
  case None
  then show ?thesis
    using generateChunk_ok [of cx] by (auto simp: getChunk_def)
next
  case (Some g)
  then show ?thesis by (simp add: getChunk_def)
qed

lemma loadChunk_keys:
  "\<exists>s'. loadChunk cx s = Inr s' \<and> map fst s' = addKey cx (map fst s)"
proof -
  obtain g s' where g: "getChunk cx s = Inr (g, s')"
    and c: "(map_of s cx = Some g \<and> s' = s) \<or> (map_of s cx = None \<and> s' = s @ [(cx, g)])"
    using getChunk_cases [of cx s] by blast
  from c have "map fst s' = addKey cx (map fst s)"
  proof
    assume a: "map_of s cx = Some g \<and> s' = s"
    then have "cx \<in> fst ` set s" by (force dest: map_of_SomeD)
    with a show ?thesis by (simp add: addKey_def)
  next
    assume a: "map_of s cx = None \<and> s' = s @ [(cx, g)]"
    then have "cx \<notin> fst ` set s" by (simp add: map_of_eq_None_iff)
    with a show ?thesis by (simp add: addKey_def)
  qed
  with g show ?thesis by (simp add: loadChunk_def)
qed

lemma forE_loadChunk_keys:
  "\<exists>s'. forE ks loadChunk s = Inr s' \<and> map fst s' = fold addKey ks (map fst s)"
proof (induction ks arbitrary: s)
  case Nil
  then show ?case by simp
next
  case (Cons k ks)
  obtain s1 where s1: "loadChunk k s = Inr s1" "map fst s1 = addKey k (map fst s)"
    using loadChunk_keys [of k s] by blast
  with Cons.IH [of s1] show ?case by simp
qed

lemma set_addKey: "set (addKey k ks) = insert k (set ks)"
  by (auto simp: addKey_def)

lemma distinct_addKey: "distinct ks \<Longrightarrow> distinct (addKey k ks)"
  by (simp add: addKey_def)

lemma set_fold_addKey: "set (fold addKey ks ks0) = set ks0 \<union> set ks"
  by (induction ks arbitrary: ks0) (auto simp: set_addKey)

lemma distinct_fold_addKey: "distinct ks0 \<Longrightarrow> distinct (fold addKey ks ks0)"
  by (induction ks arbitrary: ks0) (auto simp: distinct_addKey)

lemma fold_delete_filter:
  "fold (\<lambda>cx s. if far cx then AList.delete cx s else s) ks s
   = filter (\<lambda>e. \<not> (fst e \<in> set ks \<and> far (fst e))) s"
proof (induction ks arbitrary: s)
  case Nil
  then show ?case by simp
next
  case (Cons k ks)
  have "AList.delete k s = filter (\<lambda>e. fst e \<noteq> k) s"
    by (simp add: AList.delete_eq case_prod_beta' eq_commute)
  then show ?case
    by (auto simp: Cons.IH intro: filter_cong)
qed

lemma evictFar_filter:
  "evictFar c s = filter (\<lambda>e. \<not> \<bar>fst e - c\<bar> > LOAD_RADIUS + 2) s"
  unfolding evictFar_def fold_delete_filter
  by (rule filter_cong) auto

lemma ensureChunksLoaded_keys:
  "\<exists>s'. ensureChunksLoaded p s = Inr s' \<and>
     map fst s' = filter (\<lambda>k. \<not> \<bar>k - playerChunkX p\<bar> > LOAD_RADIUS + 2)
        (fold addKey [playerChunkX p - LOAD_RADIUS .. playerChunkX p + LOAD_RADIUS] (map fst s))"
proof -
  let ?c = "playerChunkX p"
  obtain s1 where s1: "forE [?c - LOAD_RADIUS .. ?c + LOAD_RADIUS] loadChunk s = Inr s1"
     "map fst s1 = fold addKey [?c - LOAD_RADIUS .. ?c + LOAD_RADIUS] (map fst s)"
    using forE_loadChunk_keys by blast
  have "map fst (evictFar ?c s1) = filter (\<lambda>k. \<not> \<bar>k - ?c\<bar> > LOAD_RADIUS + 2) (map fst s1)"
    by (simp add: evictFar_filter filter_map comp_def)
  with s1 show ?thesis
    by (simp add: ensureChunksLoaded_def Let_def)
qed

lemma ensureChunksLoaded_bound:
  assumes "distinct (map fst s)"
  shows "\<exists>s'. ensureChunksLoaded p s = Inr s' \<and> distinct (map fst s')
     \<and> int (length s') \<le> 2 * (LOAD_RADIUS + 2) + 1"
proof -
  let ?c = "playerChunkX p"
  let ?ks = "fold addKey [?c - LOAD_RADIUS .. ?c + LOAD_RADIUS] (map fst s)"
  obtain s' where s': "ensureChunksLoaded p s = Inr s'"
    "map fst s' = filter (\<lambda>k. \<not> \<bar>k - ?c\<bar> > LOAD_RADIUS + 2) ?ks"
    using ensureChunksLoaded_keys by blast
  have d: "distinct (map fst s')"
    using assms by (simp add: s'(2) distinct_fold_addKey)
  have "set (map fst s') \<subseteq> {?c - (LOAD_RADIUS + 2) .. ?c + (LOAD_RADIUS + 2)}"
    by (auto simp: s'(2))
  then have "card (set (map fst s')) \<le> card {?c - (LOAD_RADIUS + 2) .. ?c + (LOAD_RADIUS + 2)}"
    by (intro card_mono) auto
  moreover have "card (set (map fst s')) = length s'"
    using d by (metis distinct_card length_map)
  ultimately have "int (length s') \<le> 2 * (LOAD_RADIUS + 2) + 1"
    by (simp add: LOAD_RADIUS_def)
  with s' d show ?thesis by blast
qed

lemma ensure_sequence_bound:
  assumes "distinct (map fst s)" "int (length s) \<le> 2 * (LOAD_RADIUS + 2) + 1"
  shows "\<exists>s'. forE ps ensureChunksLoaded s = Inr s' \<and> distinct (map fst s')
     \<and> int (length s') \<le> 2 * (LOAD_RADIUS + 2) + 1"
  using assms
proof (induction ps arbitrary: s)
  case Nil
  then show ?case by simp
next
  case (Cons p ps)
  obtain s1 where s1: "ensureChunksLoaded p s = Inr s1" "distinct (map fst s1)"
     "int (length s1) \<le> 2 * (LOAD_RADIUS + 2) + 1"
    using ensureChunksLoaded_bound [OF Cons.prems(1)] by blast
  with Cons.IH [of s1] show ?case by simp
qed

text \<open>
  Claim C1. From the empty map, after every call of a sequence of \<^verbatim>\<open>ensureChunksLoaded\<close> calls
  with arbitrary player positions (the calls \<open>ps\<close> and then the call for \<open>p\<close>), the call
  has returned and at most \<open>2 * (LOAD_RADIUS + 2) + 1\<close> chunks are resident.
\<close>

theorem resident_chunks_bounded:
  "\<exists>s. forE (ps @ [p]) ensureChunksLoaded [] = Inr s
       \<and> int (length s) \<le> 2 * (LOAD_RADIUS + 2) + 1"
  using ensure_sequence_bound [of "[]" "ps @ [p]"] by (auto simp: LOAD_RADIUS_def)

lemma playerChunkX_initial: "playerChunkX initialPlayer = 0"
  by (simp add: playerChunkX_def initialPlayer_def floorDiv_def TILE_def CHUNK_W_def)

lemma requestAndEnsure_keys:
  "\<exists>s. requestAndEnsure ks p = Inr s \<and>
     map fst s = filter (\<lambda>k. \<not> \<bar>k - playerChunkX p\<bar> > LOAD_RADIUS + 2)
        (fold addKey [playerChunkX p - LOAD_RADIUS .. playerChunkX p + LOAD_RADIUS]
           (fold addKey ks []))"
proof -
  obtain s1 where s1: "forE ks loadChunk [] = Inr s1" "map fst s1 = fold addKey ks []"
    using forE_loadChunk_keys [of ks "[]"] by auto
  obtain s where "ensureChunksLoaded p s1 = Inr s"
    "map fst s = filter (\<lambda>k. \<not> \<bar>k - playerChunkX p\<bar> > LOAD_RADIUS + 2)
        (fold addKey [playerChunkX p - LOAD_RADIUS .. playerChunkX p + LOAD_RADIUS] (map fst s1))"
    using ensureChunksLoaded_keys [of p s1] by blast
  with s1 show ?thesis by (simp add: requestAndEnsure_def)
qed

lemma keys_scenario:
  "filter (\<lambda>k. \<not> \<bar>k - 0\<bar> > LOAD_RADIUS + 2)
        (fold addKey [0 - LOAD_RADIUS .. 0 + LOAD_RADIUS] (fold addKey [-5 .. 5] []))
   = [-5 .. 5]"
  by code_simp

text \<open>
  Claim C5 as stated fails: after chunks \<open>-5 .. 5\<close> were requested, the pass for the player at
  the spawn point (centre chunk 0) does not leave exactly the keys \<open>-4 .. 4\<close>; chunk 5 stays.
\<close>

theorem far_chunks_stay_counterexample:
  "residentKeys (requestAndEnsure [-5 .. 5] initialPlayer) \<noteq> Inr {-4 .. 4}"
proof -
  obtain s where s: "requestAndEnsure [-5 .. 5] initialPlayer = Inr s"
    "map fst s = [-5 .. 5]"
    using requestAndEnsure_keys [of "[-5 .. 5]" initialPlayer, unfolded playerChunkX_initial keys_scenario]
    by auto
  have "(5::int) \<in> set (map fst s)" unfolding s(2) by simp
  moreover have "(5::int) \<notin> {-4 .. 4}" by simp
  ultimately have "set (map fst s) \<noteq> {-4 .. 4}" by blast
  then show ?thesis unfolding residentKeys_def s(1) by simp
qed

text \<open>
  Claim C5, amended. With load radius 4, from the empty map, requesting the chunks \<open>-5 .. 5\<close> and
  then running the load/evict pass with centre chunk 0 leaves exactly the keys \<open>-5 .. 5\<close>
  resident: the pass evicts only keys farther than \<open>LOAD_RADIUS + 2 = 6\<close> from the centre.
\<close>

theorem request_then_ensure_keeps_guard_band:
  assumes "playerChunkX p = 0"
  shows "residentKeys (requestAndEnsure [-5 .. 5] p) = Inr {-5 .. 5}"
proof -
  obtain s where s: "requestAndEnsure [-5 .. 5] p = Inr s"
    "map fst s = [-5 .. 5]"
    using requestAndEnsure_keys [of "[-5 .. 5]" p, unfolded assms keys_scenario]
    by auto
  have "set (map fst s) = {-5 .. 5}"
    unfolding s(2) by (simp only: set_upto)
  then show ?thesis unfolding residentKeys_def s(1) by simp
qed

text \<open>The amended claim at the spawn position of the player.\<close>

theorem request_then_ensure_keeps_guard_band_witness:
  "playerChunkX initialPlayer = 0
   \<and> residentKeys (requestAndEnsure [-5 .. 5] initialPlayer) = Inr {-5 .. 5}"
  using request_then_ensure_keeps_guard_band [of initialPlayer] playerChunkX_initial by simp

section \<open>The tile index\<close>

lemma floorDiv_div: "floorDiv a CHUNK_W = a div CHUNK_W"
  using floor_divide_of_int_eq [of a 32, where ?'a = real]
  by (simp add: floorDiv_def CHUNK_W_def)

lemma mod_js_mod: "mod_js a CHUNK_W = a mod CHUNK_W"
proof -
  have r: "jsRem b 32 = (if 0 \<le> b then b mod 32 else - ((- b) mod 32))" for b
    by (simp add: jsRem_def sgn_if)
  show ?thesis
  proof (cases "0 \<le> a")
    case True
    then have "0 \<le> a mod 32 + 32" by simp
    then show ?thesis using True by (simp add: mod_js_def CHUNK_W_def r)
  next
    case False
    have "(- a) mod 32 < 32" by simp
    then have p: "0 \<le> - ((- a) mod 32) + 32" by linarith
    have "(- ((- a) mod 32) + 32) mod 32 = a mod 32"
      by (metis add.commute add.inverse_inverse mod_add_self1 mod_minus_eq)
    then show ?thesis using False p by (simp add: mod_js_def CHUNK_W_def r)
  qed
qed

lemma mod_js_range: "0 \<le> mod_js a CHUNK_W \<and> mod_js a CHUNK_W < CHUNK_W"
  unfolding mod_js_mod by (simp add: CHUNK_W_def)

lemma tile_split: "floorDiv a CHUNK_W * CHUNK_W + mod_js a CHUNK_W = a"
  by (simp add: mod_js_mod floorDiv_div)

lemma wf_store_Nil: "wf_store []"
  by (simp add: wf_store_def)

lemma wf_store_map_of: "wf_store s \<Longrightarrow> map_of s k = Some g \<Longrightarrow> wf_chunk g"
  by (auto simp: wf_store_def list_all_iff dest!: map_of_SomeD)

lemma getChunk_wf:
  assumes "wf_store s"
  shows "\<exists>g s'. getChunk cx s = Inr (g, s') \<and> wf_chunk g \<and> wf_store s' \<and> map_of s' cx = Some g
          \<and> (\<forall>k. k \<noteq> cx \<longrightarrow> map_of s' k = map_of s k)
          \<and> (map_of s cx = None \<longrightarrow> generateChunk cx = Inr g)
          \<and> (map_of s cx \<noteq> None \<longrightarrow> s' = s)"
proof -
  obtain g s' where g: "getChunk cx s = Inr (g, s')"
    and c: "(map_of s cx = Some g \<and> s' = s) \<or>
       (map_of s cx = None \<and> generateChunk cx = Inr g \<and> wf_chunk g \<and> s' = s @ [(cx, g)])"
    using getChunk_cases [of cx s] by blast
  from c show ?thesis
  proof
    assume a: "map_of s cx = Some g \<and> s' = s"
    then show ?thesis using g assms wf_store_map_of [of s cx g] by auto
  next
    assume a: "map_of s cx = None \<and> generateChunk cx = Inr g \<and> wf_chunk g \<and> s' = s @ [(cx, g)]"
    then have n: "cx \<notin> fst ` set s" by (simp add: map_of_eq_None_iff)
    have "wf_store s'" using a n assms by (simp add: wf_store_def)
    moreover have "map_of s' cx = Some g" using a by (simp add: map_add_def)
    moreover have "\<forall>k. k \<noteq> cx \<longrightarrow> map_of s' k = map_of s k"
      using a by (auto simp: map_add_def split: option.splits)
    ultimately show ?thesis using g a by auto
  qed
qed

lemma wf_store_update:
  assumes "wf_store s" "wf_chunk g"
  shows "wf_store (AList.update k g s)"
proof -
  have "distinct (map fst (AList.update k g s))"
    using assms(1) by (simp add: wf_store_def distinct_update)
  moreover have "list_all wf_chunk (map snd (AList.update k g s))"
    using assms by (induction s) (auto simp: wf_store_def)
  ultimately show ?thesis by (simp add: wf_store_def)
qed

lemma setBlock_wf:
  assumes "wf_store s" "0 \<le> ty" "ty < WORLD_H"
  shows "\<exists>g s1. getChunk (floorDiv tx CHUNK_W) s = Inr (g, s1) \<and> wf_chunk g \<and>
           setBlock tx ty bid s
            = Inr (AList.update (floorDiv tx CHUNK_W)
                     (g[nat ty := (g ! nat ty)[nat (mod_js tx CHUNK_W) := bid]]) s1)
           \<and> wf_store (AList.update (floorDiv tx CHUNK_W)
                     (g[nat ty := (g ! nat ty)[nat (mod_js tx CHUNK_W) := bid]]) s1)"
proof -
  let ?cx = "floorDiv tx CHUNK_W" and ?lx = "mod_js tx CHUNK_W"
  obtain g s1 where g: "getChunk ?cx s = Inr (g, s1)" "wf_chunk g" "wf_store s1"
    using getChunk_wf [OF assms(1), of ?cx] by blast
  have lx: "0 \<le> ?lx" "?lx < CHUNK_W" using mod_js_range [of tx] by simp_all
  have c: "cellSet g ty ?lx bid = Inr (g[nat ty := (g ! nat ty)[nat ?lx := bid]])"
       "wf_chunk (g[nat ty := (g ! nat ty)[nat ?lx := bid]])"
    using cellSet_wf [OF g(2) assms(2,3) lx] by simp_all
  have "setBlock tx ty bid s = Inr (AList.update ?cx (g[nat ty := (g ! nat ty)[nat ?lx := bid]]) s1)"
    using assms(2,3) g(1) c(1) by (simp add: setBlock_def Let_def)
  with g c wf_store_update [OF g(3) c(2)] show ?thesis by blast
qed

text \<open>
  Claim C4. For every integer tile column \<open>tx\<close> (negative ones included), every row
  \<open>0 \<le> ty < WORLD_H\<close> and every block \<open>X\<close>, on a valid chunk map \<^verbatim>\<open>setBlock(tx, ty, X)\<close> returns
  and \<^verbatim>\<open>getBlock(tx, ty)\<close> on the resulting map returns \<open>X\<close>; the chunk key and the local
  column that both use recompose to \<open>tx\<close>, with the local column in \<open>0 ..< CHUNK_W\<close>.
\<close>

theorem setBlock_getBlock_roundtrip:
  assumes "wf_store s" "0 \<le> ty" "ty < WORLD_H"
  shows "\<exists>s1. setBlock tx ty X s = Inr s1 \<and> getBlock tx ty s1 = Inr (X, s1)
           \<and> floorDiv tx CHUNK_W * CHUNK_W + mod_js tx CHUNK_W = tx
           \<and> 0 \<le> mod_js tx CHUNK_W \<and> mod_js tx CHUNK_W < CHUNK_W"
proof -
  let ?cx = "floorDiv tx CHUNK_W" and ?lx = "mod_js tx CHUNK_W"
  obtain g s0 where g: "wf_chunk g"
    and sb: "setBlock tx ty X s = Inr (AList.update ?cx (g[nat ty := (g ! nat ty)[nat ?lx := X]]) s0)"
    and wf1: "wf_store (AList.update ?cx (g[nat ty := (g ! nat ty)[nat ?lx := X]]) s0)"
    using setBlock_wf [OF assms, of tx X] by blast
  let ?g' = "g[nat ty := (g ! nat ty)[nat ?lx := X]]"
  let ?s1 = "AList.update ?cx ?g' s0"
  have lx: "0 \<le> ?lx" "?lx < CHUNK_W" using mod_js_range [of tx] by simp_all
  have m: "map_of ?s1 ?cx = Some ?g'" by (simp add: update_conv')
  then have gc: "getChunk ?cx ?s1 = Inr (?g', ?s1)" by (simp add: getChunk_def)
  have wg': "wf_chunk ?g'" using wf_store_map_of [OF wf1 m] .
  have n1: "nat ty < length g"
    using wf_chunk_length [OF g] assms(2,3) by linarith
  have n2: "nat ?lx < length (g ! nat ty)"
    using wf_chunk_row [OF g assms(2,3)] lx by linarith
  have "cellGet ?g' ty ?lx = Inr (?g' ! nat ty ! nat ?lx)"
    by (rule cellGet_wf [OF wg' assms(2,3) lx])
  also have "?g' ! nat ty ! nat ?lx = X"
    using n1 n2 by simp
  finally have "getBlock tx ty ?s1 = Inr (X, ?s1)"
    using assms(2,3) gc by (simp add: getBlock_def Let_def)
  with sb lx tile_split [of tx] show ?thesis by simp
qed

text \<open>The round trip at \<open>tx = -1\<close> on the empty map (chunk \<open>-1\<close> is generated on the way).\<close>

theorem setBlock_getBlock_roundtrip_witness:
  "wf_store [] \<and> (0::int) \<le> 10 \<and> 10 < WORLD_H
   \<and> (\<exists>s1. setBlock (-1) 10 STONE [] = Inr s1 \<and> getBlock (-1) 10 s1 = Inr (STONE, s1)
           \<and> floorDiv (-1) CHUNK_W * CHUNK_W + mod_js (-1) CHUNK_W = -1
           \<and> 0 \<le> mod_js (-1) CHUNK_W \<and> mod_js (-1) CHUNK_W < CHUNK_W)"
proof -
  have h: "wf_store []" "(0::int) \<le> 10" "10 < WORLD_H"
    by (simp_all add: wf_store_def WORLD_H_def)
  show ?thesis
    using h setBlock_getBlock_roundtrip [OF h, of "-1" STONE] by simp
qed

text \<open>For \<open>CHUNK_W = 32\<close>, tile column \<open>-1\<close> is column 31 of chunk \<open>-1\<close>.\<close>

lemma tile_minus_one: "floorDiv (-1) CHUNK_W = -1 \<and> mod_js (-1) CHUNK_W = 31"
  unfolding floorDiv_div mod_js_mod by (simp add: CHUNK_W_def)

text \<open>
  Claim C6. For every \<open>tx\<close> and every row \<open>ty\<close> outside \<open>0 ..< WORLD_H\<close>, \<^verbatim>\<open>getBlock(tx, ty)\<close>
  returns Air and \<^verbatim>\<open>setBlock(tx, ty, id)\<close> returns without touching the chunk map; neither
  throws.
\<close>

theorem out_of_range_row_is_air:
  assumes "ty < 0 \<or> ty \<ge> WORLD_H"
  shows "getBlock tx ty s = Inr (AIR, s) \<and> setBlock tx ty bid s = Inr s"
  using assms by (auto simp: getBlock_def setBlock_def)

text \<open>Rows \<open>-1\<close> and \<open>80\<close> on the empty map: no chunk is generated.\<close>

theorem out_of_range_row_is_air_witness:
  "((-1::int) < 0 \<or> -1 \<ge> WORLD_H)
   \<and> getBlock 7 (-1) [] = Inr (AIR, []) \<and> setBlock 7 (-1) STONE [] = Inr []
   \<and> ((80::int) < 0 \<or> 80 \<ge> WORLD_H)
   \<and> getBlock (-3) 80 [] = Inr (AIR, []) \<and> setBlock (-3) 80 GRASS [] = Inr []"
  using out_of_range_row_is_air [of "-1" 7 "[]" STONE]
        out_of_range_row_is_air [of 80 "-3" "[]" GRASS]
  by (simp add: WORLD_H_def)

text \<open>
  Claim C2. For every chunk key \<open>k\<close>, \<^verbatim>\<open>generateChunk(k)\<close> returns, without an exception, one
  grid \<open>g\<close> of \<open>WORLD_H\<close> rows of \<open>CHUNK_W\<close> cells; it takes nothing but \<open>k\<close> (and the constant
  seed), and whatever the chunk map held before, once the key \<open>k\<close> is evicted the next
  \<^verbatim>\<open>getChunk(k)\<close> generates and stores that same \<open>g\<close>.
\<close>

theorem generateChunk_deterministic:
  "\<exists>g. generateChunk k = Inr g
       \<and> map length g = replicate (nat WORLD_H) (nat CHUNK_W)
       \<and> (\<forall>s. getChunk k (AList.delete k s) = Inr (g, AList.delete k s @ [(k, g)]))"
proof -
  obtain g where g: "generateChunk k = Inr g" "wf_chunk g"
    using generateChunk_ok [of k] by blast
  have "map_of (AList.delete k s) k = None" for s :: store
    by (simp add: delete_conv')
  then have "getChunk k (AList.delete k s) = Inr (g, AList.delete k s @ [(k, g)])" for s
    by (simp add: getChunk_def g(1))
  with g show ?thesis by (simp add: wf_chunk_def)
qed

section \<open>Survival\<close>

lemma drainHunger_ok: "vitals_ok p \<Longrightarrow> vitals_ok (fst (drainHunger dt (p, t)))"
  by (simp add: drainHunger_def vitals_ok_def Let_def)

lemma regen_ok: "vitals_ok p \<Longrightarrow> vitals_ok (regen r1 p)"
  by (simp add: regen_def vitals_ok_def)

lemma starve_ok: "vitals_ok p \<Longrightarrow> vitals_ok (starve r2 p)"
  by (simp add: starve_def vitals_ok_def)

lemma respawn_ok: "vitals_ok p \<Longrightarrow> vitals_ok (respawn p)"
  by (simp add: respawn_def vitals_ok_def)

lemma updateSurvival_fst:
  "fst (updateSurvival dt r1 r2 (p, t)) =
     (let p3 = starve r2 (regen r1 (fst (drainHunger dt (p, t))))
      in if health p3 \<le> 0 then respawn p3 else p3)"
  by (simp add: updateSurvival_def Let_def case_prod_beta)

text \<open>
  Claim C10. \<^verbatim>\<open>updateSurvival\<close> keeps the vitals in their bounds: for every \<open>dt \<ge> 0\<close> and every
  outcome \<open>r1\<close>, \<open>r2\<close> of the two random draws, if \<open>0 \<le> health \<le> maxHealth\<close> and
  \<open>0 \<le> hunger \<le> maxHunger\<close> hold before the call, they hold after it.
\<close>

theorem updateSurvival_keeps_bounds:
  assumes "0 \<le> dt"
    and "0 \<le> health p" "health p \<le> maxHealth p"
    and "0 \<le> hunger p" "hunger p \<le> maxHunger p"
  shows "vitals_ok (fst (updateSurvival dt r1 r2 (p, t)))"
proof -
  have "vitals_ok p" using assms by (simp add: vitals_ok_def)
  then have "vitals_ok (starve r2 (regen r1 (fst (drainHunger dt (p, t)))))"
    by (intro starve_ok regen_ok drainHunger_ok)
  then show ?thesis
    by (simp add: updateSurvival_fst Let_def respawn_ok)
qed

text \<open>
  A starving player with one health point left, when the starvation draw hits: health drops to
  0 and the respawn restores both maxima.
\<close>

theorem updateSurvival_keeps_bounds_witness:
  "(0::real) \<le> 0.05
   \<and> 0 \<le> health (initialPlayer\<lparr>health := 1, hunger := 0\<rparr>)
   \<and> health (initialPlayer\<lparr>health := 1, hunger := 0\<rparr>) \<le> maxHealth (initialPlayer\<lparr>health := 1, hunger := 0\<rparr>)
   \<and> 0 \<le> hunger (initialPlayer\<lparr>health := 1, hunger := 0\<rparr>)
   \<and> hunger (initialPlayer\<lparr>health := 1, hunger := 0\<rparr>) \<le> maxHunger (initialPlayer\<lparr>health := 1, hunger := 0\<rparr>)
   \<and> health (fst (updateSurvival 0.05 0.5 0.01 (initialPlayer\<lparr>health := 1, hunger := 0\<rparr>, 3.99))) = 20
   \<and> hunger (fst (updateSurvival 0.05 0.5 0.01 (initialPlayer\<lparr>health := 1, hunger := 0\<rparr>, 3.99))) = 20
   \<and> vitals_ok (fst (updateSurvival 0.05 0.5 0.01 (initialPlayer\<lparr>health := 1, hunger := 0\<rparr>, 3.99)))"
proof -
  let ?p = "initialPlayer\<lparr>health := 1, hunger := 0\<rparr>"
  have h: "(0::real) \<le> 0.05" "0 \<le> health ?p" "health ?p \<le> maxHealth ?p"
     "0 \<le> hunger ?p" "hunger ?p \<le> maxHunger ?p"
    by (simp_all add: initialPlayer_def)
  have d: "fst (drainHunger 0.05 (?p, 3.99)) = ?p"
    by (simp add: drainHunger_def Let_def initialPlayer_def)
  have e: "health (fst (updateSurvival 0.05 0.5 0.01 (?p, 3.99))) = 20"
      "hunger (fst (updateSurvival 0.05 0.5 0.01 (?p, 3.99))) = 20"
    unfolding updateSurvival_fst d
    by (simp_all add: Let_def regen_def starve_def initialPlayer_def respawn_def)
  show ?thesis
    using h e updateSurvival_keeps_bounds [OF h, of "0.5" "0.01" "3.99"]
    by simp
qed

section \<open>The world seen through the chunk map\<close>

lemma blockAt_chunkView:
  "blockAt s tx ty =
     (if ty < 0 \<or> ty \<ge> WORLD_H then Inr AIR
      else bindE (chunkView s (floorDiv tx CHUNK_W)) (\<lambda>g. cellGet g ty (mod_js tx CHUNK_W)))"
proof (cases "ty < 0 \<or> ty \<ge> WORLD_H")
  case True
  then show ?thesis by (auto simp: blockAt_def getBlock_def)
next
  case False
  let ?cx = "floorDiv tx CHUNK_W" and ?lx = "mod_js tx CHUNK_W"
  have gb: "blockAt s tx ty
     = bindE (bindE (getChunk ?cx s) (\<lambda>(chunk, chunks').
         bindE (cellGet chunk ty ?lx) (\<lambda>b. Inr (b, chunks')))) (\<lambda>(b, s'). Inr b)"
    using False by (simp add: blockAt_def getBlock_def Let_def)
  have r: "bindE (bindE (cellGet g ty ?lx) (\<lambda>b. Inr (b, s1))) (\<lambda>(b, s'). Inr b)
            = cellGet g ty ?lx" for g and s1 :: store
    by (cases "cellGet g ty ?lx") simp_all
  show ?thesis
  proof (cases "chunkView s ?cx")
    case (Inl e)
    then have "getChunk ?cx s = Inl e"
      by (auto simp: chunkView_def getChunk_def split: option.splits)
    then show ?thesis using False Inl by (simp add: gb)
  next
    case (Inr g)
    then have "\<exists>s1. getChunk ?cx s = Inr (g, s1)"
      by (auto simp: chunkView_def getChunk_def split: option.splits)
    then obtain s1 where "getChunk ?cx s = Inr (g, s1)" by blast
    then show ?thesis using False Inr by (simp add: gb r)
  qed
qed

lemma chunkView_getChunk:
  assumes "getChunk cx s = Inr (g, s')"
  shows "chunkView s' = chunkView s"
proof -
  obtain g0 s0 where a: "getChunk cx s = Inr (g0, s0)"
    and c: "(map_of s cx = Some g0 \<and> s0 = s) \<or>
       (map_of s cx = None \<and> generateChunk cx = Inr g0 \<and> wf_chunk g0 \<and> s0 = s @ [(cx, g0)])"
    using getChunk_cases [of cx s] by blast
  from a assms have e: "g0 = g" "s0 = s'" by simp_all
  from c show ?thesis
  proof
    assume "map_of s cx = Some g0 \<and> s0 = s"
    then show ?thesis using e by simp
  next
    assume b: "map_of s cx = None \<and> generateChunk cx = Inr g0 \<and> wf_chunk g0 \<and> s0 = s @ [(cx, g0)]"
    have "chunkView s' k = chunkView s k" for k
      using b e by (auto simp: chunkView_def map_add_def split: option.splits)
    then show ?thesis by (rule ext)
  qed
qed

lemma blockAt_cong: "chunkView s' = chunkView s \<Longrightarrow> blockAt s' = blockAt s"
  by (simp add: fun_eq_iff blockAt_chunkView)

lemma solidAt_cong:
  assumes "chunkView s' = chunkView s"
  shows "solidAt s' = solidAt s"
  unfolding fun_eq_iff solidAt_def blockAt_cong [OF assms] by simp

lemma hitP_cong:
  assumes "chunkView s' = chunkView s"
  shows "hitP s' = hitP s"
  unfolding fun_eq_iff hitP_def solidAt_cong [OF assms] by simp

lemma getBlock_view:
  assumes "wf_store s"
  shows "\<exists>b s'. getBlock tx ty s = Inr (b, s') \<and> blockAt s tx ty = Inr b
           \<and> wf_store s' \<and> chunkView s' = chunkView s"
proof (cases "ty < 0 \<or> ty \<ge> WORLD_H")
  case True
  then show ?thesis using assms by (auto simp: getBlock_def blockAt_def)
next
  case False
  let ?cx = "floorDiv tx CHUNK_W" and ?lx = "mod_js tx CHUNK_W"
  obtain g s' where g: "getChunk ?cx s = Inr (g, s')" "wf_chunk g" "wf_store s'"
    using getChunk_wf [OF assms, of ?cx] by blast
  have lx: "0 \<le> ?lx" "?lx < CHUNK_W" using mod_js_range [of tx] by simp_all
  have c: "cellGet g ty ?lx = Inr (g ! nat ty ! nat ?lx)"
    using False by (intro cellGet_wf [OF g(2) _ _ lx]) auto
  have "getBlock tx ty s = Inr (g ! nat ty ! nat ?lx, s')"
    using False g(1) c by (simp add: getBlock_def Let_def)
  then show ?thesis
    using g(3) chunkView_getChunk [OF g(1)] by (simp add: blockAt_def)
qed

lemma anySolid_view:
  assumes "wf_store s"
  shows "\<exists>s'. anySolid ts s = Inr (\<exists>t \<in> set ts. solidAt s (fst t) (snd t), s')
           \<and> wf_store s' \<and> chunkView s' = chunkView s"
  using assms
proof (induction ts arbitrary: s)
  case Nil
  then show ?case by simp
next
  case (Cons t ts)
  obtain tx ty where t: "t = (tx, ty)" by (cases t)
  obtain b s1 where b: "getBlock tx ty s = Inr (b, s1)" "blockAt s tx ty = Inr b"
     "wf_store s1" "chunkView s1 = chunkView s"
    using getBlock_view [OF Cons.prems, of tx ty] by blast
  have sb: "solidAt s tx ty = isSolid b" by (simp add: solidAt_def b(2))
  show ?case
  proof (cases "isSolid b")
    case True
    then show ?thesis using b sb by (simp add: t)
  next
    case False
    obtain s' where s': "anySolid ts s1 = Inr (\<exists>t \<in> set ts. solidAt s1 (fst t) (snd t), s')"
       "wf_store s'" "chunkView s' = chunkView s1"
      using Cons.IH [OF b(3)] by blast
    then show ?thesis
      using False b sb unfolding solidAt_cong [OF b(4)] by (simp add: t)
  qed
qed

lemma set_grid:
  "set (concat (map (\<lambda>ty. map (\<lambda>tx. (tx, ty)) [l .. r]) [t .. b])) = {l .. r} \<times> {t .. b}"
  for l r t b :: int
  by auto

lemma set_rectTiles:
  "set (rectTiles x y w h) = colsOf x w \<times> rowsOf y h"
  unfolding rectTiles_def colsOf_def rowsOf_def Let_def by (rule set_grid)

lemma rectHitsWorld_view:
  assumes "wf_store s"
  shows "\<exists>s'. rectHitsWorld x y w h s = Inr (hitP s x y w h, s')
           \<and> wf_store s' \<and> chunkView s' = chunkView s"
proof -
  have "(\<exists>t \<in> set (rectTiles x y w h). solidAt s (fst t) (snd t)) = hitP s x y w h"
    by (auto simp: set_rectTiles hitP_def)
  then show ?thesis
    using anySolid_view [OF assms, of "rectTiles x y w h"] by (simp add: rectHitsWorld_def)
qed

section \<open>The mouse handler\<close>

text \<open>The reach test compares a Euclidean distance with \<^verbatim>\<open>REACH\<close>; comparing the squares
  gives the same answer and can be evaluated.\<close>

lemma withinReach_code [code]:
  "withinReach p tx ty \<longleftrightarrow>
     (px p + pw p / 2 - (real_of_int (tx * TILE) + real_of_int TILE / 2))\<^sup>2
       + (py p + ph p / 2 - (real_of_int (ty * TILE) + real_of_int TILE / 2))\<^sup>2 \<le> REACH\<^sup>2"
proof -
  have r: "0 \<le> REACH" by (simp add: REACH_def TILE_def)
  have "sqrt a \<le> REACH \<longleftrightarrow> a \<le> REACH\<^sup>2" for a
    using r by (auto intro: real_le_lsqrt dest: sqrt_le_D)
  then show ?thesis by (simp add: withinReach_def Let_def)
qed

lemma place_rejected:
  assumes "wf_store (chunks g)"
    and "overlapsPlayer (player g) (fst (worldToTile wx wy)) (snd (worldToTile wx wy))"
  shows "\<exists>c. mousedown 2 wx wy g = Inr (g\<lparr>chunks := c\<rparr>) \<and> wf_store c
             \<and> chunkView c = chunkView (chunks g)"
proof -
  obtain tx ty where t: "worldToTile wx wy = (tx, ty)" by (cases "worldToTile wx wy")
  have ov: "overlapsPlayer (player g) tx ty" using assms(2) by (simp add: t)
  obtain b c1 where b: "getBlock tx ty (chunks g) = Inr (b, c1)" "wf_store c1"
     "chunkView c1 = chunkView (chunks g)"
    using getBlock_view [OF assms(1), of tx ty] by blast
  have same: "g = g\<lparr>chunks := chunks g\<rparr>" by simp
  show ?thesis
  proof (cases "withinReach (player g) tx ty")
    case False
    then have "mousedown 2 wx wy g = Inr (g\<lparr>chunks := chunks g\<rparr>)"
      by (simp add: mousedown_def t)
    then show ?thesis using assms(1) by blast
  next
    case True
    show ?thesis
    proof (cases "slotAt (hotbar g) (selectedSlot g)")
      case None
      then have "mousedown 2 wx wy g = Inr (g\<lparr>chunks := chunks g\<rparr>)"
        using True by (simp add: mousedown_def t)
      then show ?thesis using assms(1) by blast
    next
      case (Some sl)
      show ?thesis
      proof (cases "count sl \<le> 0")
        case True
        then have "mousedown 2 wx wy g = Inr (g\<lparr>chunks := chunks g\<rparr>)"
          using \<open>withinReach (player g) tx ty\<close> Some by (simp add: mousedown_def t)
        then show ?thesis using assms(1) by blast
      next
        case False
        then have "mousedown 2 wx wy g = Inr (g\<lparr>chunks := c1\<rparr>)"
          using \<open>withinReach (player g) tx ty\<close> Some b(1) ov by (simp add: mousedown_def t)
        then show ?thesis using b by blast
      qed
    qed
  qed
qed

lemma break_air_noop:
  assumes "wf_store (chunks g)"
    and "blockAt (chunks g) (fst (worldToTile wx wy)) (snd (worldToTile wx wy)) = Inr AIR"
  shows "\<exists>c. mousedown 0 wx wy g = Inr (g\<lparr>chunks := c\<rparr>) \<and> wf_store c
             \<and> chunkView c = chunkView (chunks g)"
proof -
  obtain tx ty where t: "worldToTile wx wy = (tx, ty)" by (cases "worldToTile wx wy")
  obtain b c1 where b: "getBlock tx ty (chunks g) = Inr (b, c1)" "blockAt (chunks g) tx ty = Inr b"
     "wf_store c1" "chunkView c1 = chunkView (chunks g)"
    using getBlock_view [OF assms(1), of tx ty] by blast
  have air: "b = AIR" using assms(2) b(2) by (simp add: t)
  show ?thesis
  proof (cases "withinReach (player g) tx ty")
    case False
    then have "mousedown 0 wx wy g = Inr (g\<lparr>chunks := chunks g\<rparr>)"
      by (simp add: mousedown_def t)
    then show ?thesis using assms(1) by blast
  next
    case True
    then have "mousedown 0 wx wy g = Inr (g\<lparr>chunks := c1\<rparr>)"
      using b(1) air by (simp add: mousedown_def t)
    then show ?thesis using b by blast
  qed
qed

text \<open>
  Claim C9. On a valid chunk map, a place request (button 2) whose target tile overlaps the
  player's box returns without placing: the hotbar, the selected slot and the player are as
  before, and every tile of the world, the target included, reads as before (the map may
  have gained the generated chunk of the target). A break request (button 0) on a tile that
  reads Air changes no tile and no hotbar slot either.
\<close>

theorem interaction_guards:
  assumes "wf_store (chunks g)"
  shows "(overlapsPlayer (player g) (fst (worldToTile wx wy)) (snd (worldToTile wx wy)) \<longrightarrow>
            (\<exists>g'. mousedown 2 wx wy g = Inr g' \<and> hotbar g' = hotbar g
                  \<and> selectedSlot g' = selectedSlot g \<and> player g' = player g
                  \<and> blockAt (chunks g') = blockAt (chunks g)))
       \<and> (blockAt (chunks g) (fst (worldToTile wx wy)) (snd (worldToTile wx wy)) = Inr AIR \<longrightarrow>
            (\<exists>g'. mousedown 0 wx wy g = Inr g' \<and> hotbar g' = hotbar g
                  \<and> selectedSlot g' = selectedSlot g \<and> player g' = player g
                  \<and> blockAt (chunks g') = blockAt (chunks g)))"
proof (intro conjI impI)
  assume "overlapsPlayer (player g) (fst (worldToTile wx wy)) (snd (worldToTile wx wy))"
  then obtain c where c: "mousedown 2 wx wy g = Inr (g\<lparr>chunks := c\<rparr>)"
      "chunkView c = chunkView (chunks g)"
    using place_rejected [OF assms] by blast
  from c(1) blockAt_cong [OF c(2)] show "\<exists>g'. mousedown 2 wx wy g = Inr g' \<and> hotbar g' = hotbar g
                  \<and> selectedSlot g' = selectedSlot g \<and> player g' = player g
                  \<and> blockAt (chunks g') = blockAt (chunks g)"
    by simp
next
  assume "blockAt (chunks g) (fst (worldToTile wx wy)) (snd (worldToTile wx wy)) = Inr AIR"
  then obtain c where c: "mousedown 0 wx wy g = Inr (g\<lparr>chunks := c\<rparr>)"
      "chunkView c = chunkView (chunks g)"
    using break_air_noop [OF assms] by blast
  from c(1) blockAt_cong [OF c(2)] show "\<exists>g'. mousedown 0 wx wy g = Inr g' \<and> hotbar g' = hotbar g
                  \<and> selectedSlot g' = selectedSlot g \<and> player g' = player g
                  \<and> blockAt (chunks g') = blockAt (chunks g)"
    by simp
qed

text \<open>
  Both guards on a click at pixel \<open>(70, 330)\<close>, inside the player's box at the spawn point: the
  target is tile \<open>(2, 10)\<close>, which overlaps the player and holds Air.
\<close>

theorem interaction_guards_witness:
  "wf_store (chunks airGame)
   \<and> overlapsPlayer (player airGame) (fst (worldToTile 70 330)) (snd (worldToTile 70 330))
   \<and> (\<exists>g'. mousedown 2 70 330 airGame = Inr g' \<and> hotbar g' = hotbar airGame
                  \<and> selectedSlot g' = selectedSlot airGame \<and> player g' = player airGame
                  \<and> blockAt (chunks g') = blockAt (chunks airGame))
   \<and> blockAt (chunks airGame) (fst (worldToTile 70 330)) (snd (worldToTile 70 330)) = Inr AIR
   \<and> (\<exists>g'. mousedown 0 70 330 airGame = Inr g' \<and> hotbar g' = hotbar airGame
                  \<and> selectedSlot g' = selectedSlot airGame \<and> player g' = player airGame
                  \<and> blockAt (chunks g') = blockAt (chunks airGame))"
proof -
  have t: "worldToTile 70 330 = (2, 10)"
    by (simp add: worldToTile_def TILE_def)
  have h1: "wf_store (chunks airGame)"
    by (simp add: airGame_def wf_store_def wf_emptyChunk)
  have h2: "overlapsPlayer (player airGame) (fst (worldToTile 70 330)) (snd (worldToTile 70 330))"
    unfolding t by (simp add: airGame_def initialPlayer_def overlapsPlayer_def TILE_def)
  have "cellGet emptyChunk 10 2 = Inr (emptyChunk ! nat 10 ! nat 2)"
    by (rule cellGet_wf [OF wf_emptyChunk]) (simp_all add: WORLD_H_def CHUNK_W_def)
  also have "emptyChunk ! nat 10 ! nat 2 = AIR"
    by (simp add: emptyChunk_def WORLD_H_def CHUNK_W_def)
  finally have c: "cellGet emptyChunk 10 2 = Inr AIR" .
  have m: "floorDiv 2 CHUNK_W = 0" "mod_js 2 CHUNK_W = 2"
    unfolding floorDiv_div mod_js_mod by (simp_all add: CHUNK_W_def)
  have h3: "blockAt (chunks airGame) (fst (worldToTile 70 330)) (snd (worldToTile 70 330)) = Inr AIR"
    unfolding t by (simp add: blockAt_chunkView m chunkView_def airGame_def c WORLD_H_def)
  show ?thesis
    using h1 h2 h3 interaction_guards [OF h1, of 70 330] by blast
qed

section \<open>Collision\<close>

lemma bindOE_Some_Inr [simp]: "bindOE (Some (Inr a)) f = f a"
  by (simp add: bindOE_def)

lemma retreatY_steps:
  assumes "wf_store s"
    and "\<forall>i<n. hitP s (px p) (py p - real i * step) (pw p) (ph p)"
    and "\<not> hitP s (px p) (py p - real n * step) (pw p) (ph p)"
  shows "\<exists>s'. retreatY step p s = Some (Inr (p\<lparr>py := py p - real n * step\<rparr>, s'))
            \<and> wf_store s' \<and> chunkView s' = chunkView s"
  using assms
proof (induction n arbitrary: p s)
  case 0
  obtain s' where s': "rectHitsWorld (px p) (py p) (pw p) (ph p) s
       = Inr (hitP s (px p) (py p) (pw p) (ph p), s')" "wf_store s'" "chunkView s' = chunkView s"
    using rectHitsWorld_view [OF "0.prems"(1)] by blast
  have "retreatY step p s = Some (Inr (p, s'))"
    using "0.prems"(3) s'(1) by (subst retreatY.simps) simp
  then show ?case using s' by simp
next
  case (Suc n)
  obtain s1 where s1: "rectHitsWorld (px p) (py p) (pw p) (ph p) s
       = Inr (hitP s (px p) (py p) (pw p) (ph p), s1)" "wf_store s1" "chunkView s1 = chunkView s"
    using rectHitsWorld_view [OF Suc.prems(1)] by blast
  have h0: "hitP s (px p) (py p) (pw p) (ph p)"
    using Suc.prems(2) [rule_format, of 0] by simp
  let ?p = "p\<lparr>py := py p - step\<rparr>"
  have u: "retreatY step p s = retreatY step ?p s1"
    using h0 s1(1) by (subst retreatY.simps) simp
  have e: "py p - step - real i * step = py p - real (Suc i) * step" for i
    by (simp add: algebra_simps)
  have a: "\<forall>i<n. hitP s1 (px ?p) (py ?p - real i * step) (pw ?p) (ph ?p)"
    unfolding hitP_cong [OF s1(3)] using Suc.prems(2) by (auto simp: e simp del: of_nat_Suc)
  have b: "\<not> hitP s1 (px ?p) (py ?p - real n * step) (pw ?p) (ph ?p)"
    unfolding hitP_cong [OF s1(3)] using Suc.prems(3) by (simp add: e del: of_nat_Suc)
  obtain s' where s': "retreatY step ?p s1 = Some (Inr (?p\<lparr>py := py ?p - real n * step\<rparr>, s'))"
     "wf_store s'" "chunkView s' = chunkView s1"
    using Suc.IH [OF s1(2) a b] by blast
  have "?p\<lparr>py := py ?p - real n * step\<rparr> = p\<lparr>py := py p - real (Suc n) * step\<rparr>"
    by (simp add: e del: of_nat_Suc)
  with u s' s1(3) show ?case by simp
qed

lemma retreatX_steps:
  assumes "wf_store s"
    and "\<forall>i<n. hitP s (px p - real i * step) (py p) (pw p) (ph p)"
    and "\<not> hitP s (px p - real n * step) (py p) (pw p) (ph p)"
  shows "\<exists>s'. retreatX step p s = Some (Inr (p\<lparr>px := px p - real n * step\<rparr>, s'))
            \<and> wf_store s' \<and> chunkView s' = chunkView s"
  using assms
proof (induction n arbitrary: p s)
  case 0
  obtain s' where s': "rectHitsWorld (px p) (py p) (pw p) (ph p) s
       = Inr (hitP s (px p) (py p) (pw p) (ph p), s')" "wf_store s'" "chunkView s' = chunkView s"
    using rectHitsWorld_view [OF "0.prems"(1)] by blast
  have "retreatX step p s = Some (Inr (p, s'))"
    using "0.prems"(3) s'(1) by (subst retreatX.simps) simp
  then show ?case using s' by simp
next
  case (Suc n)
  obtain s1 where s1: "rectHitsWorld (px p) (py p) (pw p) (ph p) s
       = Inr (hitP s (px p) (py p) (pw p) (ph p), s1)" "wf_store s1" "chunkView s1 = chunkView s"
    using rectHitsWorld_view [OF Suc.prems(1)] by blast
  have h0: "hitP s (px p) (py p) (pw p) (ph p)"
    using Suc.prems(2) [rule_format, of 0] by simp
  let ?p = "p\<lparr>px := px p - step\<rparr>"
  have u: "retreatX step p s = retreatX step ?p s1"
    using h0 s1(1) by (subst retreatX.simps) simp
  have e: "px p - step - real i * step = px p - real (Suc i) * step" for i
    by (simp add: algebra_simps)
  have a: "\<forall>i<n. hitP s1 (px ?p - real i * step) (py ?p) (pw ?p) (ph ?p)"
    unfolding hitP_cong [OF s1(3)] using Suc.prems(2) by (auto simp: e simp del: of_nat_Suc)
  have b: "\<not> hitP s1 (px ?p - real n * step) (py ?p) (pw ?p) (ph ?p)"
    unfolding hitP_cong [OF s1(3)] using Suc.prems(3) by (simp add: e del: of_nat_Suc)
  obtain s' where s': "retreatX step ?p s1 = Some (Inr (?p\<lparr>px := px ?p - real n * step\<rparr>, s'))"
     "wf_store s'" "chunkView s' = chunkView s1"
    using Suc.IH [OF s1(2) a b] by blast
  have "?p\<lparr>px := px ?p - real n * step\<rparr> = p\<lparr>px := px p - real (Suc n) * step\<rparr>"
    by (simp add: e del: of_nat_Suc)
  with u s' s1(3) show ?case by simp
qed

lemma pushOut_no_hit:
  assumes "wf_store s" "\<not> hitP s (px p) (py p) (pw p) (ph p)"
  shows "\<exists>s'. pushOutX step p s = Some (Inr (p, s')) \<and> pushOutY step p s = Some (Inr (p, s'))
            \<and> wf_store s' \<and> chunkView s' = chunkView s"
proof -
  obtain s' where s': "rectHitsWorld (px p) (py p) (pw p) (ph p) s
       = Inr (hitP s (px p) (py p) (pw p) (ph p), s')" "wf_store s'" "chunkView s' = chunkView s"
    using rectHitsWorld_view [OF assms(1)] by blast
  then show ?thesis using assms(2) by (simp add: pushOutX_def pushOutY_def)
qed

lemma pushOutY_hit:
  assumes "wf_store s"
    and "\<forall>i<n. hitP s (px p) (py p - real i * step) (pw p) (ph p)"
    and "\<not> hitP s (px p) (py p - real n * step) (pw p) (ph p)"
    and "0 < n"
  shows "\<exists>s'. pushOutY step p s
             = Some (Inr (p\<lparr>py := py p - real n * step,
                            onGround := (if step > 0 then True else onGround p), pvy := 0\<rparr>, s'))
            \<and> wf_store s' \<and> chunkView s' = chunkView s"
proof -
  obtain s1 where s1: "rectHitsWorld (px p) (py p) (pw p) (ph p) s
       = Inr (hitP s (px p) (py p) (pw p) (ph p), s1)" "wf_store s1" "chunkView s1 = chunkView s"
    using rectHitsWorld_view [OF assms(1)] by blast
  have h0: "hitP s (px p) (py p) (pw p) (ph p)"
    using assms(2,4) by force
  obtain s' where s': "retreatY step p s1 = Some (Inr (p\<lparr>py := py p - real n * step\<rparr>, s'))"
     "wf_store s'" "chunkView s' = chunkView s1"
    using retreatY_steps [OF s1(2), of n p step] assms(2,3) unfolding hitP_cong [OF s1(3)] by blast
  have "pushOutY step p s
     = Some (Inr (p\<lparr>py := py p - real n * step,
                    onGround := (if step > 0 then True else onGround p), pvy := 0\<rparr>, s'))"
    using h0 s1(1) s'(1) by (simp add: pushOutY_def)
  then show ?thesis using s' s1(3) by simp
qed

lemma pushOutX_hit:
  assumes "wf_store s"
    and "\<forall>i<n. hitP s (px p - real i * step) (py p) (pw p) (ph p)"
    and "\<not> hitP s (px p - real n * step) (py p) (pw p) (ph p)"
    and "0 < n"
  shows "\<exists>s'. pushOutX step p s
             = Some (Inr (p\<lparr>px := px p - real n * step, pvx := 0\<rparr>, s'))
            \<and> wf_store s' \<and> chunkView s' = chunkView s"
proof -
  obtain s1 where s1: "rectHitsWorld (px p) (py p) (pw p) (ph p) s
       = Inr (hitP s (px p) (py p) (pw p) (ph p), s1)" "wf_store s1" "chunkView s1 = chunkView s"
    using rectHitsWorld_view [OF assms(1)] by blast
  have h0: "hitP s (px p) (py p) (pw p) (ph p)"
    using assms(2,4) by force
  obtain s' where s': "retreatX step p s1 = Some (Inr (p\<lparr>px := px p - real n * step\<rparr>, s'))"
     "wf_store s'" "chunkView s' = chunkView s1"
    using retreatX_steps [OF s1(2), of n p step] assms(2,3) unfolding hitP_cong [OF s1(3)] by blast
  have "pushOutX step p s = Some (Inr (p\<lparr>px := px p - real n * step, pvx := 0\<rparr>, s'))"
    using h0 s1(1) s'(1) by (simp add: pushOutX_def)
  then show ?thesis using s' s1(3) by simp
qed

lemma floor_hit_iff:
  assumes "\<forall>tx \<in> colsOf x w. \<forall>ty. solidAt s tx ty \<longleftrightarrow> ty = R" and "colsOf x w \<noteq> {}"
  shows "hitP s x y w h \<longleftrightarrow> R \<in> rowsOf y h"
  using assms by (auto simp: hitP_def)

lemma row_le_iff: "R \<le> \<lfloor>a / real_of_int TILE\<rfloor> \<longleftrightarrow> real_of_int (R * TILE) \<le> a"
  by (simp add: le_floor_iff TILE_def pos_le_divide_eq)

lemma row_ge_iff: "\<lfloor>a / real_of_int TILE\<rfloor> \<le> R \<longleftrightarrow> a < real_of_int (R * TILE) + real_of_int TILE"
proof -
  have "\<lfloor>a / real_of_int TILE\<rfloor> \<le> R \<longleftrightarrow> a / real_of_int TILE < real_of_int R + 1"
    by (simp add: floor_le_iff)
  also have "\<dots> \<longleftrightarrow> a < real_of_int (R * TILE) + real_of_int TILE"
    by (simp add: TILE_def pos_divide_less_eq algebra_simps)
  finally show ?thesis .
qed

lemma signOr1_pos: "0 < v \<Longrightarrow> signOr1 v = 1"
  by (simp add: signOr1_def)

lemma signOr1_zero: "signOr1 0 = 1"
  by (simp add: signOr1_def)

lemma landing:
  assumes wf: "wf_store s"
    and floor: "\<forall>tx \<in> colsOf (px p + pvx p) (pw p). \<forall>ty. solidAt s tx ty \<longleftrightarrow> ty = R"
    and cols: "colsOf (px p + pvx p) (pw p) \<noteq> {}"
    and vy: "0 < pvy p"
    and before: "R \<notin> rowsOf (py p) (ph p)"
    and after: "R \<in> rowsOf (py p + pvy p) (ph p)"
  shows "\<exists>s'. moveAndCollide p s
           = Some (Inr (p\<lparr>px := px p + pvx p,
                         py := real_of_int (R * TILE) - ph p + frac (py p + pvy p + ph p),
                         onGround := True, pvy := 0\<rparr>, s'))
           \<and> wf_store s' \<and> chunkView s' = chunkView s"
proof -
  define x1 where "x1 = px p + pvx p"
  define y1 where "y1 = py p + pvy p"
  define d where "d = y1 + ph p - 1 - real_of_int (R * TILE)"
  define n where "n = nat (\<lfloor>d\<rfloor> + 1)"
  let ?p1 = "p\<lparr>px := x1\<rparr>"
  have hit: "hitP s x1 y (pw p) (ph p) \<longleftrightarrow> R \<in> rowsOf y (ph p)" for y
    using floor_hit_iff [OF floor cols] by (simp add: x1_def)
  \<comment> \<open>horizontal: nothing in the way\<close>
  have "\<not> hitP s (px ?p1) (py ?p1) (pw ?p1) (ph ?p1)"
    using before by (simp add: hit)
  then obtain s1 where s1: "pushOutX (signOr1 (pvx ?p1)) ?p1 s = Some (Inr (?p1, s1))"
      "wf_store s1" "chunkView s1 = chunkView s"
    using pushOut_no_hit [OF wf, of ?p1] by blast
  \<comment> \<open>vertical: the retreat takes \<open>n\<close> steps of one pixel\<close>
  let ?p3 = "?p1\<lparr>py := y1, onGround := False\<rparr>"
  have top: "\<lfloor>y1 / real_of_int TILE\<rfloor> \<le> R" and bot: "R \<le> \<lfloor>(y1 + ph p - 1) / real_of_int TILE\<rfloor>"
    using after by (simp_all add: rowsOf_def y1_def)
  have d0: "0 \<le> d"
    using bot by (simp add: row_le_iff d_def)
  then have fl0: "0 \<le> \<lfloor>d\<rfloor>" by simp
  have rn: "real n = real_of_int \<lfloor>d\<rfloor> + 1"
    using fl0 by (simp add: n_def)
  have npos: "0 < n" using fl0 by (simp add: n_def)
  have during: "R \<in> rowsOf (y1 - real i * 1) (ph p)" if "i < n" for i
  proof -
    have "int i \<le> \<lfloor>d\<rfloor>" using that fl0 by (simp add: n_def)
    then have "real i \<le> real_of_int \<lfloor>d\<rfloor>" by linarith
    then have "real i \<le> d" using of_int_floor_le [of d] by linarith
    then have "real_of_int (R * TILE) \<le> y1 - real i + ph p - 1"
      by (simp add: d_def)
    then have b: "R \<le> \<lfloor>(y1 - real i * 1 + ph p - 1) / real_of_int TILE\<rfloor>"
      by (simp add: row_le_iff)
    have "y1 - real i \<le> y1" by simp
    then have "y1 - real i < real_of_int (R * TILE) + real_of_int TILE"
      using top by (simp add: row_ge_iff)
    then have t: "\<lfloor>(y1 - real i * 1) / real_of_int TILE\<rfloor> \<le> R"
      by (simp add: row_ge_iff)
    from b t show ?thesis by (simp add: rowsOf_def)
  qed
  have "d < real_of_int \<lfloor>d\<rfloor> + 1" by linarith
  then have "d < real n" using rn by linarith
  then have "y1 - real n + ph p - 1 < real_of_int (R * TILE)"
    unfolding d_def by linarith
  then have "\<not> R \<le> \<lfloor>(y1 - real n * 1 + ph p - 1) / real_of_int TILE\<rfloor>"
    by (simp add: row_le_iff)
  then have final: "R \<notin> rowsOf (y1 - real n * 1) (ph p)"
    by (simp add: rowsOf_def)
  have a: "\<forall>i<n. hitP s1 (px ?p3) (py ?p3 - real i * 1) (pw ?p3) (ph ?p3)"
    unfolding hitP_cong [OF s1(3)] using during by (simp add: hit)
  have b: "\<not> hitP s1 (px ?p3) (py ?p3 - real n * 1) (pw ?p3) (ph ?p3)"
    unfolding hitP_cong [OF s1(3)] using final by (simp add: hit)
  obtain s' where s': "pushOutY 1 ?p3 s1
             = Some (Inr (?p3\<lparr>py := py ?p3 - real n * 1,
                            onGround := (if (1::real) > 0 then True else onGround ?p3), pvy := 0\<rparr>, s'))"
     "wf_store s'" "chunkView s' = chunkView s1"
    using pushOutY_hit [OF s1(2) a b npos] by blast
  have "frac (y1 + ph p) = frac (d + real_of_int (R * TILE + 1))"
    by (simp add: d_def algebra_simps)
  also have "\<dots> = frac d"
    by (rule frac_add_of_int_right)
  finally have fr: "frac (y1 + ph p) = d - real_of_int \<lfloor>d\<rfloor>"
    by (simp add: frac_def)
  have y': "y1 - real n * 1 = real_of_int (R * TILE) - ph p + frac (y1 + ph p)"
    by (simp add: fr rn d_def)
  have st: "signOr1 (pvy ?p3) = 1" using vy by (simp add: signOr1_pos)
  have "moveAndCollide p s = pushOutY 1 ?p3 s1"
    using s1(1) st by (simp add: moveAndCollide_def Let_def x1_def y1_def)
  also have "\<dots> = Some (Inr (p\<lparr>px := x1, py := real_of_int (R * TILE) - ph p + frac (y1 + ph p),
                         onGround := True, pvy := 0\<rparr>, s'))"
    unfolding s'(1) using y' by simp
  finally show ?thesis
    using s'(2,3) s1(3) by (simp add: x1_def y1_def)
qed

subsection \<open>Landing on a floor\<close>

lemma replicate_update_same: "(replicate n a)[i := a] = replicate n a"
proof (cases "i < n")
  case True
  then have "(replicate n a)[i := replicate n a ! i] = replicate n a"
    by (intro list_update_id)
  then show ?thesis using True by simp
next
  case False
  then show ?thesis by (simp add: list_update_beyond)
qed

lemma wf_floorChunk: "wf_chunk (floorChunk r)"
  by (simp add: wf_chunk_def floorChunk_def emptyChunk_def map_update replicate_update_same)

lemma wf_blockedChunk: "wf_chunk blockedChunk"
  by (simp add: wf_chunk_def blockedChunk_def emptyChunk_def map_update replicate_update_same
      WORLD_H_def CHUNK_W_def)

lemma floorChunk_cell:
  assumes "0 \<le> ty" "ty < WORLD_H" "0 \<le> lx" "lx < CHUNK_W" "0 \<le> r"
  shows "cellGet (floorChunk r) ty lx = Inr (if ty = r then STONE else AIR)"
proof -
  have n: "nat ty < nat WORLD_H" "nat lx < nat CHUNK_W" using assms by simp_all
  have "floorChunk r ! nat ty ! nat lx = (if ty = r then STONE else AIR)"
  proof (cases "ty = r")
    case True
    then show ?thesis using n by (simp add: floorChunk_def emptyChunk_def)
  next
    case False
    then have "nat r \<noteq> nat ty" using assms(1,5) by linarith
    then show ?thesis using n False by (simp add: floorChunk_def emptyChunk_def)
  qed
  then show ?thesis
    using cellGet_wf [OF wf_floorChunk assms(1-4), of r] by simp
qed

lemma blockedChunk_cell:
  assumes "0 \<le> ty" "ty < WORLD_H" "0 \<le> lx" "lx < CHUNK_W"
  shows "cellGet blockedChunk ty lx = Inr (if ty = 10 \<and> lx = 2 then STONE else AIR)"
proof -
  have n: "nat ty < nat WORLD_H" "nat lx < nat CHUNK_W" using assms by simp_all
  have "blockedChunk ! nat ty ! nat lx = (if ty = 10 \<and> lx = 2 then STONE else AIR)"
    using n assms(1,3)
    by (auto simp: blockedChunk_def emptyChunk_def nth_list_update WORLD_H_def CHUNK_W_def)
  then show ?thesis
    using cellGet_wf [OF wf_blockedChunk assms] by simp
qed

lemma chunk0_tile:
  assumes "0 \<le> tx" "tx < CHUNK_W"
  shows "floorDiv tx CHUNK_W = 0" "mod_js tx CHUNK_W = tx"
  unfolding floorDiv_div mod_js_mod using assms by (simp_all add: CHUNK_W_def)

lemma blockAt_chunk0:
  assumes "0 \<le> tx" "tx < CHUNK_W"
  shows "blockAt [(0, g)] tx ty = (if ty < 0 \<or> ty \<ge> WORLD_H then Inr AIR else cellGet g ty tx)"
  by (simp add: blockAt_chunkView chunk0_tile [OF assms] chunkView_def)

lemma solidAt_floor:
  assumes "0 \<le> tx" "tx < CHUNK_W" "0 \<le> r" "r < WORLD_H"
  shows "solidAt [(0, floorChunk r)] tx ty \<longleftrightarrow> ty = r"
proof (cases "ty < 0 \<or> ty \<ge> WORLD_H")
  case True
  then show ?thesis using assms(3,4) by (auto simp: solidAt_def blockAt_chunk0 [OF assms(1,2)])
next
  case False
  then have "cellGet (floorChunk r) ty tx = Inr (if ty = r then STONE else AIR)"
    by (intro floorChunk_cell assms(1,2,3)) auto
  then show ?thesis using False by (simp add: solidAt_def blockAt_chunk0 [OF assms(1,2)])
qed

lemma solidAt_blocked:
  assumes "0 \<le> tx" "tx < CHUNK_W"
  shows "solidAt [(0, blockedChunk)] tx ty \<longleftrightarrow> tx = 2 \<and> ty = 10"
proof (cases "ty < 0 \<or> ty \<ge> WORLD_H")
  case True
  then show ?thesis by (auto simp: solidAt_def blockAt_chunk0 [OF assms(1,2)] WORLD_H_def)
next
  case False
  then have "cellGet blockedChunk ty tx = Inr (if ty = 10 \<and> tx = 2 then STONE else AIR)"
    by (intro blockedChunk_cell assms) auto
  then show ?thesis using False by (auto simp: solidAt_def blockAt_chunk0 [OF assms(1,2)])
qed

lemma wf_store_single: "wf_chunk g \<Longrightarrow> wf_store [(k, g)]"
  by (simp add: wf_store_def)

text \<open>
  Claim C8 as stated fails. Chunk 0 is Air but for a stone floor in row 11 (top edge at pixel
  352). The player of the spawn point, at \<open>y = 320.5\<close> with \<open>vy = 5\<close>, does not touch the floor;
  \<open>y + vy\<close> would put the box into row 11. After \<^verbatim>\<open>moveAndCollide\<close> the bottom edge is at
  \<open>352.5\<close>, not at \<open>352\<close>: the retreat moves by whole pixels from \<open>y + vy\<close> and stops as soon
  as \<open>y + h - 1\<close> is above the floor.
\<close>

theorem landing_not_exact_counterexample:
  "outcome (moveAndCollide (initialPlayer\<lparr>py := 641 / 2, pvy := 5\<rparr>) [(0, floorChunk 11)])
     = Some (705 / 2, 0, True)
   \<and> outcome (moveAndCollide (initialPlayer\<lparr>py := 641 / 2, pvy := 5\<rparr>) [(0, floorChunk 11)])
     \<noteq> Some (real_of_int (11 * TILE), 0, True)"
proof -
  let ?p = "initialPlayer\<lparr>py := 641 / 2, pvy := 5\<rparr>"
  let ?s = "[(0, floorChunk 11)]"
  have c: "colsOf (px ?p + pvx ?p) (pw ?p) = {2}"
    by (simp add: colsOf_def initialPlayer_def TILE_def)
  have f: "\<forall>tx \<in> colsOf (px ?p + pvx ?p) (pw ?p). \<forall>ty. solidAt ?s tx ty \<longleftrightarrow> ty = 11"
    unfolding c by (simp add: solidAt_floor CHUNK_W_def WORLD_H_def)
  have h: "wf_store ?s" "colsOf (px ?p + pvx ?p) (pw ?p) \<noteq> {}" "0 < pvy ?p"
      "11 \<notin> rowsOf (py ?p) (ph ?p)" "11 \<in> rowsOf (py ?p + pvy ?p) (ph ?p)"
    unfolding c by (simp_all add: wf_store_single wf_floorChunk rowsOf_def initialPlayer_def TILE_def)
  obtain s' where "moveAndCollide ?p ?s
           = Some (Inr (?p\<lparr>px := px ?p + pvx ?p,
                         py := real_of_int (11 * TILE) - ph ?p + frac (py ?p + pvy ?p + ph ?p),
                         onGround := True, pvy := 0\<rparr>, s'))"
    using landing [OF h(1) f h(2,3,4,5)] by blast
  moreover have "py ?p + pvy ?p + ph ?p = 711 / 2"
    by (simp add: initialPlayer_def)
  moreover have "frac (711 / 2 :: real) = 1 / 2"
    unfolding frac_unique_iff by simp
  ultimately have "outcome (moveAndCollide ?p ?s) = Some (705 / 2, 0, True)"
    by (simp add: outcome_def initialPlayer_def TILE_def)
  then show ?thesis by (simp add: TILE_def)
qed

text \<open>
  Claim C8, amended. Let the columns under the player's box after the horizontal move hold
  a solid block in row \<open>R\<close> and none in any other row (a floor one tile thick), on a valid
  chunk map. If the box does not reach row \<open>R\<close> before the move, \<open>vy > 0\<close>, and adding \<open>vy\<close> to
  \<open>y\<close> puts the box into row \<open>R\<close>, then \<^verbatim>\<open>moveAndCollide\<close> returns with \<open>vy = 0\<close>,
  \<open>onGround = true\<close>, and the bottom edge \<open>y + h\<close> at the floor's top edge \<open>R * TILE\<close> plus the
  fractional part of the \<open>y + vy + h\<close> it started from: less than one pixel below the top
  edge, and exactly on it when \<open>y + vy + h\<close> is a whole number.
\<close>

theorem falling_player_lands_on_floor:
  assumes "wf_store s"
    and "\<forall>tx \<in> colsOf (px p + pvx p) (pw p). \<forall>ty. solidAt s tx ty \<longleftrightarrow> ty = R"
    and "colsOf (px p + pvx p) (pw p) \<noteq> {}"
    and "0 < pvy p"
    and "R \<notin> rowsOf (py p) (ph p)"
    and "R \<in> rowsOf (py p + pvy p) (ph p)"
  shows "outcome (moveAndCollide p s)
           = Some (real_of_int (R * TILE) + frac (py p + pvy p + ph p), 0, True)
       \<and> 0 \<le> frac (py p + pvy p + ph p) \<and> frac (py p + pvy p + ph p) < 1
       \<and> (frac (py p + pvy p + ph p) = 0 \<longleftrightarrow> py p + pvy p + ph p \<in> \<int>)"
proof -
  obtain s' where "moveAndCollide p s
           = Some (Inr (p\<lparr>px := px p + pvx p,
                         py := real_of_int (R * TILE) - ph p + frac (py p + pvy p + ph p),
                         onGround := True, pvy := 0\<rparr>, s'))"
    using landing [OF assms] by blast
  then have "outcome (moveAndCollide p s)
           = Some (real_of_int (R * TILE) + frac (py p + pvy p + ph p), 0, True)"
    by (simp add: outcome_def)
  then show ?thesis
    by (simp add: frac_lt_1)
qed

text \<open>
  The amended claim on a floor in row 11: from \<open>y = 320.5\<close> with \<open>vy = 5\<close> the bottom edge ends
  at \<open>352.5\<close>; from \<open>y = 320\<close> with \<open>vy = 5\<close> it ends at \<open>352\<close>, on the floor's top edge.
\<close>

theorem falling_player_lands_on_floor_witness:
  "wf_store [(0, floorChunk 11)]
   \<and> 0 < pvy (initialPlayer\<lparr>pvy := 5\<rparr>)
   \<and> 11 \<notin> rowsOf (py (initialPlayer\<lparr>pvy := 5\<rparr>)) (ph (initialPlayer\<lparr>pvy := 5\<rparr>))
   \<and> 11 \<in> rowsOf (py (initialPlayer\<lparr>pvy := 5\<rparr>) + pvy (initialPlayer\<lparr>pvy := 5\<rparr>))
                  (ph (initialPlayer\<lparr>pvy := 5\<rparr>))
   \<and> colsOf (px (initialPlayer\<lparr>pvy := 5\<rparr>) + pvx (initialPlayer\<lparr>pvy := 5\<rparr>))
              (pw (initialPlayer\<lparr>pvy := 5\<rparr>)) = {2}
   \<and> solidAt [(0, floorChunk 11)] 2 11 \<and> \<not> solidAt [(0, floorChunk 11)] 2 10
   \<and> outcome (moveAndCollide (initialPlayer\<lparr>pvy := 5\<rparr>) [(0, floorChunk 11)])
        = Some (real_of_int (11 * TILE), 0, True)"
proof -
  let ?p = "initialPlayer\<lparr>pvy := 5\<rparr>"
  let ?s = "[(0, floorChunk 11)]"
  have c: "colsOf (px ?p + pvx ?p) (pw ?p) = {2}"
    by (simp add: colsOf_def initialPlayer_def TILE_def)
  have f: "\<forall>tx \<in> colsOf (px ?p + pvx ?p) (pw ?p). \<forall>ty. solidAt ?s tx ty \<longleftrightarrow> ty = 11"
    unfolding c by (simp add: solidAt_floor CHUNK_W_def WORLD_H_def)
  have h: "wf_store ?s" "colsOf (px ?p + pvx ?p) (pw ?p) \<noteq> {}" "0 < pvy ?p"
      "11 \<notin> rowsOf (py ?p) (ph ?p)" "11 \<in> rowsOf (py ?p + pvy ?p) (ph ?p)"
    unfolding c by (simp_all add: wf_store_single wf_floorChunk rowsOf_def initialPlayer_def TILE_def)
  have z: "frac (py ?p + pvy ?p + ph ?p) = 0"
    by (simp add: initialPlayer_def TILE_def)
  have t: "solidAt ?s 2 11" "\<not> solidAt ?s 2 10"
    by (simp_all add: solidAt_floor CHUNK_W_def WORLD_H_def)
  show ?thesis
    using falling_player_lands_on_floor [OF h(1) f h(2,3,4,5)] h c t unfolding z by simp
qed

subsection \<open>The retreat loops and the zero step\<close>

lemma bindOE_None [simp]: "bindOE None f = None"
  by (simp add: bindOE_def)

lemma retreatX_zero_stuck:
  assumes "retreatX step p s = Some r"
  shows "\<not> (step = 0 \<and> rectHitsWorld (px p) (py p) (pw p) (ph p) s = Inr (True, s))"
proof (rule retreatX.raw_induct
    [where P = "\<lambda>step p s r. \<not> (step = 0 \<and> rectHitsWorld (px p) (py p) (pw p) (ph p) s = Inr (True, s))",
     OF _ assms])
  fix loop :: "real \<Rightarrow> player \<Rightarrow> store \<Rightarrow> (error + player \<times> store) option"
    and step :: real and p :: player and chunks :: store and r :: "error + player \<times> store"
  assume IH: "\<And>step p chunks r. loop step p chunks = Some r \<Longrightarrow>
      \<not> (step = 0 \<and> rectHitsWorld (px p) (py p) (pw p) (ph p) chunks = Inr (True, chunks))"
    and body: "(case rectHitsWorld (px p) (py p) (pw p) (ph p) chunks of
        Inl e \<Rightarrow> Some (Inl e)
      | Inr (hit, chunks') \<Rightarrow>
          if hit then loop step (p\<lparr>px := px p - step\<rparr>) chunks'
          else Some (Inr (p, chunks'))) = Some r"
  show "\<not> (step = 0 \<and> rectHitsWorld (px p) (py p) (pw p) (ph p) chunks = Inr (True, chunks))"
  proof
    assume a: "step = 0 \<and> rectHitsWorld (px p) (py p) (pw p) (ph p) chunks = Inr (True, chunks)"
    with body have "loop 0 (p\<lparr>px := px p - 0\<rparr>) chunks = Some r" by simp
    then have "loop 0 p chunks = Some r" by simp
    from IH [OF this] a show False by simp
  qed
qed

lemma retreatX_zero_diverges:
  "rectHitsWorld (px p) (py p) (pw p) (ph p) s = Inr (True, s) \<Longrightarrow> retreatX 0 p s = None"
  using retreatX_zero_stuck [of 0 p s] by (cases "retreatX 0 p s") auto

lemma blocked_spawn_hit:
  "rectHitsWorld (px initialPlayer) (py initialPlayer) (pw initialPlayer) (ph initialPlayer)
      [(0, blockedChunk)] = Inr (True, [(0, blockedChunk)])"
proof -
  have t: "rectTiles (px initialPlayer) (py initialPlayer) (pw initialPlayer) (ph initialPlayer)
            = [(2, 10)]"
    by (simp add: rectTiles_def initialPlayer_def TILE_def Let_def)
  have c: "cellGet blockedChunk 10 2 = Inr STONE"
    using blockedChunk_cell [of 10 2] by (simp add: WORLD_H_def CHUNK_W_def)
  have m: "floorDiv 2 CHUNK_W = 0" "mod_js 2 CHUNK_W = 2"
    using chunk0_tile [of 2] by (simp_all add: CHUNK_W_def)
  have "getBlock 2 10 [(0, blockedChunk)] = Inr (STONE, [(0, blockedChunk)])"
    by (simp add: getBlock_def Let_def m getChunk_def c WORLD_H_def)
  then show ?thesis
    by (simp add: rectHitsWorld_def t)
qed

text \<open>
  Claim C7 on \<^verbatim>\<open>src/script.js\<close>. The player stands at the spawn point with \<open>vx = vy = 0\<close>, and
  tile \<open>(2, 10)\<close> under the box is stone (a block placed there before a respawn, say). The
  horizontal test hits, the step is \<^verbatim>\<open>Math.sign(0) = 0\<close>, the retreat loop never changes the
  position, and \<^verbatim>\<open>moveAndCollide\<close> does not return. Chunk 0 is resident, so the scan reads
  it from the map and no chunk is generated on the way.
\<close>

theorem zero_velocity_retreat_diverges_script:
  "moveAndCollide_script initialPlayer [(0, blockedChunk)] = None"
proof -
  have p: "initialPlayer\<lparr>px := px initialPlayer + pvx initialPlayer\<rparr> = initialPlayer"
    by (simp add: initialPlayer_def)
  have z: "sgn (pvx initialPlayer) = 0"
    by (simp add: initialPlayer_def)
  have "retreatX 0 initialPlayer [(0, blockedChunk)] = None"
    by (rule retreatX_zero_diverges [OF blocked_spawn_hit])
  then have "pushOutX 0 initialPlayer [(0, blockedChunk)] = None"
    by (simp add: pushOutX_def blocked_spawn_hit)
  then show ?thesis
    by (simp add: moveAndCollide_script_def Let_def p z)
qed

text \<open>
  The same call in the variant with the fallback (\<^verbatim>\<open>Math.sign(player.vx) || 1\<close>): the step is
  1, the loop leaves after 26 pixels at \<open>x = 38\<close>, and the function returns.
\<close>

lemma hitP_blocked:
  assumes "colsOf x w \<subseteq> {0 ..< CHUNK_W}"
  shows "hitP [(0, blockedChunk)] x y w h \<longleftrightarrow> 2 \<in> colsOf x w \<and> 10 \<in> rowsOf y h"
proof -
  have "solidAt [(0, blockedChunk)] tx ty \<longleftrightarrow> tx = 2 \<and> ty = 10" if "tx \<in> colsOf x w" for tx ty
    using that assms by (intro solidAt_blocked) auto
  then show ?thesis by (auto simp: hitP_def)
qed

lemma hit_blocked_spawn:
  assumes "i \<le> 26"
  shows "hitP [(0, blockedChunk)] (px initialPlayer - real i * 1) (py initialPlayer)
           (pw initialPlayer) (ph initialPlayer) \<longleftrightarrow> i < 26"
proof -
  let ?p = "initialPlayer"
  have rows: "10 \<in> rowsOf (py ?p) (ph ?p)"
    by (simp add: rowsOf_def initialPlayer_def TILE_def)
  define l where "l = \<lfloor>(64 - real i) / 32\<rfloor>"
  define r where "r = \<lfloor>(64 - real i + 26 - 1) / 32\<rfloor>"
  have a: "0 \<le> l" using assms by (simp add: l_def)
  have b: "r \<le> 2" by (simp add: r_def floor_le_iff)
  have c: "l \<le> 2" by (simp add: l_def floor_le_iff)
  have d: "2 \<le> r \<longleftrightarrow> i < 26" by (auto simp: r_def le_floor_iff)
  have "colsOf (64 - real i) 26 = {l .. r}"
    by (simp add: colsOf_def l_def r_def TILE_def)
  with a b c d have cols: "colsOf (64 - real i) 26 \<subseteq> {0 ..< CHUNK_W}"
      "2 \<in> colsOf (64 - real i) 26 \<longleftrightarrow> i < 26"
    by (auto simp: CHUNK_W_def)
  have e: "px ?p - real i * 1 = 64 - real i" "pw ?p = 26"
    by (simp_all add: initialPlayer_def TILE_def)
  show ?thesis
    unfolding e using cols rows by (simp add: hitP_blocked)
qed

lemma zero_velocity_retreat_returns:
  "\<exists>s'. moveAndCollide initialPlayer [(0, blockedChunk)]
          = Some (Inr (initialPlayer\<lparr>px := 38\<rparr>, s'))"
proof -
  let ?s = "[(0, blockedChunk)]"
  let ?p = "initialPlayer"
  have wf: "wf_store ?s" by (simp add: wf_store_single wf_blockedChunk)
  note hit = hit_blocked_spawn
  have a: "\<forall>i<26. hitP ?s (px ?p - real i * 1) (py ?p) (pw ?p) (ph ?p)"
    using hit by simp
  have b: "\<not> hitP ?s (px ?p - real (26::nat) * 1) (py ?p) (pw ?p) (ph ?p)"
    using hit [of 26] by simp
  obtain s1 where s1: "pushOutX 1 ?p ?s = Some (Inr (?p\<lparr>px := px ?p - real (26::nat) * 1, pvx := 0\<rparr>, s1))"
     "wf_store s1" "chunkView s1 = chunkView ?s"
    using pushOutX_hit [OF wf a b] by auto
  let ?p2 = "?p\<lparr>px := 38\<rparr>"
  have p2: "?p\<lparr>px := px ?p - real (26::nat) * 1, pvx := 0\<rparr> = ?p2"
    by (simp add: initialPlayer_def TILE_def)
  let ?p3 = "?p2\<lparr>py := py ?p2 + pvy ?p2, onGround := False\<rparr>"
  have p3: "?p3 = ?p2" by (simp add: initialPlayer_def)
  have "colsOf (px ?p2) (pw ?p2) = {1}"
    by (simp add: colsOf_def initialPlayer_def TILE_def)
  then have "\<not> hitP ?s (px ?p2) (py ?p2) (pw ?p2) (ph ?p2)"
    by (subst hitP_blocked) (simp_all add: CHUNK_W_def)
  then have "\<not> hitP s1 (px ?p2) (py ?p2) (pw ?p2) (ph ?p2)"
    unfolding hitP_cong [OF s1(3)] .
  then obtain s' where s': "pushOutY (signOr1 (pvy ?p2)) ?p2 s1 = Some (Inr (?p2, s'))"
    using pushOut_no_hit [OF s1(2), of ?p2] by blast
  have so: "signOr1 (pvx ?p) = 1" and pp: "?p\<lparr>px := px ?p + pvx ?p\<rparr> = ?p"
    by (simp_all add: initialPlayer_def signOr1_def)
  have s1': "pushOutX 1 ?p ?s = Some (Inr (?p2, s1))"
    using s1(1) unfolding p2 .
  have "moveAndCollide ?p ?s = pushOutY (signOr1 (pvy ?p3)) ?p3 s1"
    by (simp add: moveAndCollide_def Let_def pp so s1')
  also have "\<dots> = Some (Inr (?p2, s'))"
    unfolding p3 by (rule s')
  finally show ?thesis by blast
qed

subsection \<open>The vertical retreat always ends\<close>

lemma anySolid_outside:
  assumes "\<forall>t \<in> set ts. snd t < 0 \<or> snd t \<ge> WORLD_H"
  shows "anySolid ts s = Inr (False, s)"
  using assms
proof (induction ts)
  case Nil
  then show ?case by simp
next
  case (Cons t ts)
  obtain tx ty where t: "t = (tx, ty)" by (cases t)
  have "getBlock tx ty s = Inr (AIR, s)"
    using Cons.prems by (auto simp: t getBlock_def)
  then show ?case using Cons by (simp add: t)
qed

lemma rectHitsWorld_outside:
  assumes "\<forall>ty \<in> rowsOf y h. ty < 0 \<or> ty \<ge> WORLD_H"
  shows "rectHitsWorld x y w h s = Inr (False, s)"
  unfolding rectHitsWorld_def
  by (rule anySolid_outside) (use assms in \<open>auto simp: set_rectTiles\<close>)

lemma retreatY_up_returns:
  assumes "\<lfloor>py p + ph p - 1\<rfloor> < int n"
  shows "\<exists>r. retreatY 1 p s = Some r"
  using assms
proof (induction n arbitrary: p s)
  case 0
  then have "py p + ph p - 1 < 0" by (simp add: floor_less_iff)
  then have "\<lfloor>(py p + ph p - 1) / real_of_int TILE\<rfloor> < 0"
    by (simp add: floor_less_iff TILE_def)
  then have "ty < 0" if "ty \<in> rowsOf (py p) (ph p)" for ty
    using that unfolding rowsOf_def by (simp del: floor_less_zero)
  then have "rectHitsWorld (px p) (py p) (pw p) (ph p) s = Inr (False, s)"
    by (intro rectHitsWorld_outside) blast
  then show ?case by (subst retreatY.simps) simp
next
  case (Suc n)
  show ?case
  proof (cases "rectHitsWorld (px p) (py p) (pw p) (ph p) s")
    case (Inl e)
    then show ?thesis by (subst retreatY.simps) simp
  next
    case (Inr r)
    obtain hit s1 where r: "r = (hit, s1)" by (cases r)
    show ?thesis
    proof (cases hit)
      case False
      then show ?thesis using Inr r by (subst retreatY.simps) simp
    next
      case True
      let ?p = "p\<lparr>py := py p - 1\<rparr>"
      have "\<lfloor>py ?p + ph ?p - 1\<rfloor> = \<lfloor>py p + ph p - 1\<rfloor> - 1"
        by (simp add: algebra_simps)
      then have "\<lfloor>py ?p + ph ?p - 1\<rfloor> < int n" using Suc.prems by simp
      then have "\<exists>r. retreatY 1 ?p s1 = Some r" by (rule Suc.IH)
      moreover have "retreatY 1 p s = retreatY 1 ?p s1"
        using True Inr r by (subst retreatY.simps) simp
      ultimately show ?thesis by simp
    qed
  qed
qed

lemma retreatY_down_returns:
  assumes "real_of_int (WORLD_H * TILE) - py p < real n"
  shows "\<exists>r. retreatY (- 1) p s = Some r"
  using assms
proof (induction n arbitrary: p s)
  case 0
  then have "real_of_int (WORLD_H * TILE) \<le> py p" by simp
  then have "WORLD_H \<le> \<lfloor>py p / real_of_int TILE\<rfloor>"
    by (simp add: le_floor_iff TILE_def pos_le_divide_eq)
  then have "ty \<ge> WORLD_H" if "ty \<in> rowsOf (py p) (ph p)" for ty
    using that unfolding rowsOf_def by simp
  then have "rectHitsWorld (px p) (py p) (pw p) (ph p) s = Inr (False, s)"
    by (intro rectHitsWorld_outside) blast
  then show ?case by (subst retreatY.simps) simp
next
  case (Suc n)
  show ?case
  proof (cases "rectHitsWorld (px p) (py p) (pw p) (ph p) s")
    case (Inl e)
    then show ?thesis by (subst retreatY.simps) simp
  next
    case (Inr r)
    obtain hit s1 where r: "r = (hit, s1)" by (cases r)
    show ?thesis
    proof (cases hit)
      case False
      then show ?thesis using Inr r by (subst retreatY.simps) simp
    next
      case True
      let ?p = "p\<lparr>py := py p - (- 1)\<rparr>"
      have "real_of_int (WORLD_H * TILE) - py ?p < real n" using Suc.prems by simp
      then have "\<exists>r. retreatY (- 1) ?p s1 = Some r" by (rule Suc.IH)
      moreover have "retreatY (- 1) p s = retreatY (- 1) ?p s1"
        using True Inr r by (subst retreatY.simps) simp
      ultimately show ?thesis by simp
    qed
  qed
qed

lemma signOr1_cases: "signOr1 v = 1 \<or> signOr1 v = - 1"
  by (simp add: signOr1_def sgn_if)

lemma retreatY_returns: "\<exists>r. retreatY (signOr1 v) p s = Some r"
proof -
  have n: "\<lfloor>py p + ph p - 1\<rfloor> < int (nat (\<lfloor>py p + ph p - 1\<rfloor> + 1))"
    by linarith
  obtain m :: nat where m: "real_of_int (WORLD_H * TILE) - py p < real m"
    using reals_Archimedean2 by blast
  show ?thesis
    using signOr1_cases [of v] retreatY_up_returns [OF n] retreatY_down_returns [OF m] by auto
qed

lemma pushOutY_returns: "\<exists>r. pushOutY (signOr1 v) p s = Some r"
proof (cases "rectHitsWorld (px p) (py p) (pw p) (ph p) s")
  case (Inl e)
  then show ?thesis by (simp add: pushOutY_def)
next
  case (Inr r)
  obtain hit s1 where r: "r = (hit, s1)" by (cases r)
  show ?thesis
  proof (cases hit)
    case False
    then show ?thesis using Inr r by (simp add: pushOutY_def)
  next
    case True
    obtain r' where r': "retreatY (signOr1 v) p s1 = Some r'"
      using retreatY_returns by blast
    show ?thesis
    proof (cases r')
      case (Inl e)
      then show ?thesis using True Inr r r' by (simp add: pushOutY_def bindOE_def)
    next
      case (Inr a)
      then show ?thesis
        using True \<open>rectHitsWorld (px p) (py p) (pw p) (ph p) s = Inr r\<close> r r'
        by (cases a) (simp add: pushOutY_def)
    qed
  qed
qed

lemma pushOutX_returns_if_free:
  assumes "wf_store s" "\<not> hitP s (px p - real n * step) (py p) (pw p) (ph p)"
  shows "\<exists>r. pushOutX step p s = Some r"
proof -
  define m where "m = (LEAST k. \<not> hitP s (px p - real k * step) (py p) (pw p) (ph p))"
  have free: "\<not> hitP s (px p - real m * step) (py p) (pw p) (ph p)"
    unfolding m_def using assms(2) by (rule LeastI)
  have hits: "\<forall>i<m. hitP s (px p - real i * step) (py p) (pw p) (ph p)"
    unfolding m_def using not_less_Least by blast
  show ?thesis
  proof (cases "m = 0")
    case True
    then have "\<not> hitP s (px p) (py p) (pw p) (ph p)" using free by simp
    then show ?thesis using pushOut_no_hit [OF assms(1), of p step] by blast
  next
    case False
    then have "0 < m" by simp
    then show ?thesis using pushOutX_hit [OF assms(1) hits free] by blast
  qed
qed

text \<open>
  The variant with the fallback, in general: at velocity zero the step is 1; the vertical
  loop ends in every state (the box leaves the rows of the world after finitely many
  pixels); the horizontal loop ends whenever the box is free at some whole number of pixels
  to the left.
\<close>

theorem zero_velocity_fallback:
  "signOr1 0 = 1
   \<and> (\<exists>r. pushOutY (signOr1 0) p s = Some r)
   \<and> (wf_store s \<and> \<not> hitP s (px p - real n) (py p) (pw p) (ph p)
        \<longrightarrow> (\<exists>r. pushOutX (signOr1 0) p s = Some r))"
proof (intro conjI impI)
  show "signOr1 0 = 1" by (simp add: signOr1_def)
  show "\<exists>r. pushOutY (signOr1 0) p s = Some r" by (rule pushOutY_returns)
  assume a: "wf_store s \<and> \<not> hitP s (px p - real n) (py p) (pw p) (ph p)"
  then have "\<not> hitP s (px p - real n * 1) (py p) (pw p) (ph p)" by simp
  then show "\<exists>r. pushOutX (signOr1 0) p s = Some r"
    using a pushOutX_returns_if_free [of s p n 1] by (simp add: signOr1_def)
qed

theorem zero_velocity_fallback_witness:
  "signOr1 0 = 1
   \<and> (\<exists>r. pushOutY (signOr1 0) initialPlayer [(0, blockedChunk)] = Some r)
   \<and> wf_store [(0, blockedChunk)]
   \<and> \<not> hitP [(0, blockedChunk)] (px initialPlayer - real (26::nat)) (py initialPlayer)
           (pw initialPlayer) (ph initialPlayer)
   \<and> (\<exists>r. pushOutX (signOr1 0) initialPlayer [(0, blockedChunk)] = Some r)"
proof -
  have wf: "wf_store [(0, blockedChunk)]" by (simp add: wf_store_single wf_blockedChunk)
  have free: "\<not> hitP [(0, blockedChunk)] (px initialPlayer - real (26::nat)) (py initialPlayer)
           (pw initialPlayer) (ph initialPlayer)"
    using hit_blocked_spawn [of 26] by simp
  show ?thesis
    using wf free zero_velocity_fallback [of initialPlayer "[(0, blockedChunk)]" 26] by blast
qed

subsection \<open>The regeneration of the other variant\<close>

text \<open>
  The regeneration of \<^verbatim>\<open>src/script.js\<close> keeps the bounds when health and its maximum are whole
  numbers, as they are in every state the game produces (health starts at the maximum and
  changes by 1); for a fractional health it does not.
\<close>

lemma regen_script_ok:
  assumes "vitals_ok p" "health p \<in> \<int>" "maxHealth p \<in> \<int>"
  shows "vitals_ok (regen_script r1 p) \<and> health (regen_script r1 p) \<in> \<int>
         \<and> maxHealth (regen_script r1 p) \<in> \<int>"
proof -
  obtain a b :: int where ab: "health p = of_int a" "maxHealth p = of_int b"
    using assms(2,3) by (auto elim!: Ints_cases)
  have "health p + 1 \<le> maxHealth p" if "health p < maxHealth p"
  proof -
    from that have "a < b" unfolding ab by simp
    then have "a + 1 \<le> b" by simp
    then have "real_of_int (a + 1) \<le> real_of_int b" by (simp only: of_int_le_iff)
    then show ?thesis unfolding ab by simp
  qed
  then show ?thesis
    using assms by (auto simp: regen_script_def vitals_ok_def)
qed

lemma regen_script_fraction:
  "vitals_ok (initialPlayer\<lparr>health := 39 / 2\<rparr>)
   \<and> \<not> vitals_ok (regen_script 0 (initialPlayer\<lparr>health := 39 / 2\<rparr>))"
  by (simp add: regen_script_def vitals_ok_def initialPlayer_def)

end
